theory Spec2Isabelle
  imports Complex_Main "HOL-Library.AList" "HOL-Library.Multiset"
begin

chapter \<open>The model\<close>

section \<open>utils: random integers\<close>

text \<open>
  \<^verbatim>\<open>getRandomInRange(min, max) = Math.floor(Math.random() * (max - min + 1)) + min\<close>.
  The value of \<^verbatim>\<open>Math.random()\<close> is a parameter \<open>r\<close>, a rational with \<open>0 \<le> r < 1\<close>
  (every IEEE double is a rational; the product is taken exactly, where the source
  rounds it to a double).
\<close>

definition getRandomInRange :: "int \<Rightarrow> int \<Rightarrow> rat \<Rightarrow> int" where
  "getRandomInRange mn mx r = \<lfloor>r * of_int (mx - mn + 1)\<rfloor> + mn"

section \<open>Configuration (config.json)\<close>

record range =
  range_min :: int
  range_max :: int

record delays =
  betweenWallets :: range
  betweenTransactions :: range
  afterFaucet :: range
  betweenRounds :: range
  walletCheckInterval :: int

text \<open>
  \<open>maxTransactions\<close> is read by \<^verbatim>\<open>markWalletAsCompleted\<close> but is absent from the
  shipped config.json: \<open>None\<close> is JavaScript's \<^verbatim>\<open>undefined\<close>, for which every
  comparison \<^verbatim>\<open>x >= undefined\<close> is false.
\<close>

record walletsConfig =
  maxConcurrent :: int
  runForever :: bool
  maxTransactions :: "int option"
  randomizeOrder :: bool
  requireFaucet :: bool

record patterns =
  alwaysStartWithPriorToUsdc :: bool

record transactionsConfig =
  minTransactionsPerWallet :: int
  maxTransactionsPerWallet :: int
  patterns :: patterns

record rpcConfig =
  urls :: "string list"
  timeoutMs :: int
  retryDelay :: int
  maxRetries :: int

record config =
  cfg_chainId :: int
  cfg_rpc :: rpcConfig
  cfg_delays :: delays
  cfg_transactions :: transactionsConfig
  cfg_wallets :: walletsConfig

section \<open>walletLoader: the account state registry\<close>

type_synonym address = string

datatype walletStatus = Ready | Running | Completed | Failed | Retired

record balances =
  eth :: "int option"
  prior :: "int option"
  usdc :: "int option"

record approvals =
  approval_prior :: bool
  approval_usdc :: bool

record walletState =
  isRunning :: bool
  lastRunTime :: int
  nextRunTime :: int
  transactionsCompleted :: int
  errors :: int
  lastError :: "string option"
  status :: walletStatus
  balances :: balances
  approvals :: approvals

text \<open>
  \<^verbatim>\<open>this.walletStates\<close> is a JavaScript \<^verbatim>\<open>Map\<close>: an association list in insertion
  order, where \<^verbatim>\<open>set\<close> on a present key replaces the value in place and on an absent
  key appends (\<^const>\<open>AList.update\<close>). \<^verbatim>\<open>this.wallets\<close> is the array of wallets,
  of which only the address matters here.
\<close>

record walletLoader =
  wallets :: "address list"
  walletStates :: "(address \<times> walletState) list"

text \<open>Every function that reads \<^verbatim>\<open>Date.now()\<close> takes the reading as \<open>now\<close>.\<close>

definition initialState :: "int \<Rightarrow> walletState" where
  "initialState now =
     \<lparr>isRunning = False, lastRunTime = 0, nextRunTime = now, transactionsCompleted = 0,
      errors = 0, lastError = None, status = Ready,
      balances = \<lparr>eth = None, prior = None, usdc = None\<rparr>,
      approvals = \<lparr>approval_prior = False, approval_usdc = False\<rparr>\<rparr>"

definition initializeWalletState :: "int \<Rightarrow> address \<Rightarrow> walletLoader \<Rightarrow> walletLoader" where
  "initializeWalletState now a L =
     L\<lparr>walletStates := AList.update a (initialState now) (walletStates L)\<rparr>"

text \<open>
  \<^verbatim>\<open>getWalletState\<close> creates the state of an unknown address before returning it, so it
  returns the loader as well.
\<close>

definition getWalletState :: "int \<Rightarrow> address \<Rightarrow> walletLoader \<Rightarrow> walletState \<times> walletLoader" where
  "getWalletState now a L =
     (case map_of (walletStates L) a of
        None \<Rightarrow> (initialState now, initializeWalletState now a L)
      | Some s \<Rightarrow> (s, L))"

text \<open>
  \<^verbatim>\<open>updateWalletState(address, updates)\<close> stores \<^verbatim>\<open>{...currentState, ...updates}\<close>; the
  object of updated fields is the function \<open>upd\<close> that overwrites those fields.
\<close>

definition updateWalletState ::
  "int \<Rightarrow> address \<Rightarrow> (walletState \<Rightarrow> walletState) \<Rightarrow> walletLoader \<Rightarrow> walletLoader" where
  "updateWalletState now a upd L =
     (let (currentState, L1) = getWalletState now a L
      in L1\<lparr>walletStates := AList.update a (upd currentState) (walletStates L1)\<rparr>)"

definition markWalletAsRunning :: "int \<Rightarrow> address \<Rightarrow> walletLoader \<Rightarrow> walletLoader" where
  "markWalletAsRunning now a L =
     updateWalletState now a (\<lambda>s. s\<lparr>isRunning := True, lastRunTime := now, status := Running\<rparr>) L"

definition MAX_SAFE_INTEGER :: int where
  "MAX_SAFE_INTEGER = 9007199254740991"

text \<open>The literals of line 284, \<^verbatim>\<open>getRandomInRange(60000, 120000)\<close>.\<close>

definition shortBackoffMin :: int where
  "shortBackoffMin = 60000"

definition shortBackoffMax :: int where
  "shortBackoffMax = 120000"

definition retires :: "config \<Rightarrow> int \<Rightarrow> bool" where
  "retires cfg completed =
     (\<not> runForever (cfg_wallets cfg) \<and>
      (case maxTransactions (cfg_wallets cfg) of None \<Rightarrow> False | Some m \<Rightarrow> completed \<ge> m))"

definition markWalletAsCompleted ::
  "config \<Rightarrow> int \<Rightarrow> rat \<Rightarrow> address \<Rightarrow> bool \<Rightarrow> string option \<Rightarrow> walletLoader \<Rightarrow> walletLoader" where
  "markWalletAsCompleted cfg now r a success errorMessage L =
     (let (st, L1) = getWalletState now a L;
          nextRunDelay =
            (if success
             then getRandomInRange (range_min (betweenRounds (cfg_delays cfg)))
                    (range_max (betweenRounds (cfg_delays cfg))) r
             else getRandomInRange shortBackoffMin shortBackoffMax r);
          completed =
            (if success then transactionsCompleted st + 1 else transactionsCompleted st);
          upd = (\<lambda>s. s\<lparr>isRunning := False, transactionsCompleted := completed,
                        nextRunTime := now + nextRunDelay,
                        status := (if success then Completed else Failed)\<rparr>);
          upd' = (if \<not> success
                  then (\<lambda>s. (upd s)\<lparr>errors := errors (fst (getWalletState now a L1)) + 1,
                                      lastError := errorMessage\<rparr>)
                  else upd);
          L2 = updateWalletState now a upd' L1
      in if retires cfg completed
         then updateWalletState now a
                (\<lambda>s. s\<lparr>status := Retired, nextRunTime := MAX_SAFE_INTEGER\<rparr>) L2
         else L2)"

definition updateWalletBalances :: "int \<Rightarrow> address \<Rightarrow> (balances \<Rightarrow> balances) \<Rightarrow> walletLoader \<Rightarrow> walletLoader" where
  "updateWalletBalances now a newBalances L =
     (let (st, L1) = getWalletState now a L
      in updateWalletState now a (\<lambda>s. s\<lparr>balances := newBalances (balances st)\<rparr>) L1)"

definition updateWalletApproval :: "int \<Rightarrow> address \<Rightarrow> bool \<Rightarrow> bool \<Rightarrow> walletLoader \<Rightarrow> walletLoader" where
  "updateWalletApproval now a isPrior isApproved L =
     (let (st, L1) = getWalletState now a L;
          approvals' = (if isPrior then (approvals st)\<lparr>approval_prior := isApproved\<rparr>
                        else (approvals st)\<lparr>approval_usdc := isApproved\<rparr>)
      in updateWalletState now a (\<lambda>s. s\<lparr>approvals := approvals'\<rparr>) L1)"

fun availableFrom :: "int \<Rightarrow> address list \<Rightarrow> walletLoader \<Rightarrow> address list \<times> walletLoader" where
  "availableFrom now [] L = ([], L)"
| "availableFrom now (w # ws) L =
     (let (st, L1) = getWalletState now w L;
          (rest, L2) = availableFrom now ws L1
      in (if \<not> isRunning st \<and> now \<ge> nextRunTime st then w # rest else rest, L2))"

definition getAvailableWallets :: "int \<Rightarrow> walletLoader \<Rightarrow> address list \<times> walletLoader" where
  "getAvailableWallets now L = availableFrom now (wallets L) L"

definition getRunningWalletsCount :: "walletLoader \<Rightarrow> int" where
  "getRunningWalletsCount L = int (length (filter isRunning (map snd (walletStates L))))"

text \<open>
  \<^verbatim>\<open>loadWallets\<close>: one \<^verbatim>\<open>initializeWalletState\<close> per private key, in file order; then
  \<^verbatim>\<open>this.wallets\<close> is that list in the order \<open>order\<close> (the file order, or the
  permutation \<^verbatim>\<open>shuffleWallets\<close> leaves).
\<close>

definition loadWallets :: "int \<Rightarrow> address list \<Rightarrow> address list \<Rightarrow> walletLoader" where
  "loadWallets now addrs order =
     (fold (initializeWalletState now) addrs \<lparr>wallets = [], walletStates = []\<rparr>)\<lparr>wallets := order\<rparr>"

text \<open>The shipped config.json (the fields the model reads).\<close>

definition shippedConfig :: config where
  "shippedConfig =
     \<lparr>cfg_chainId = 84532,
      cfg_rpc = \<lparr>urls = [''https://sepolia.base.org''], timeoutMs = 10000,
                 retryDelay = 2000, maxRetries = 5\<rparr>,
      cfg_delays =
        \<lparr>betweenWallets = \<lparr>range_min = 20000, range_max = 40000\<rparr>,
         betweenTransactions = \<lparr>range_min = 5000, range_max = 15000\<rparr>,
         afterFaucet = \<lparr>range_min = 8000, range_max = 12000\<rparr>,
         betweenRounds = \<lparr>range_min = 3600000, range_max = 7200000\<rparr>,
         walletCheckInterval = 30000\<rparr>,
      cfg_transactions =
        \<lparr>minTransactionsPerWallet = 5, maxTransactionsPerWallet = 6,
         patterns = \<lparr>alwaysStartWithPriorToUsdc = True\<rparr>\<rparr>,
      cfg_wallets =
        \<lparr>maxConcurrent = 3, runForever = True, maxTransactions = None,
         randomizeOrder = True, requireFaucet = True\<rparr>\<rparr>"

section \<open>main: the scheduler loop\<close>

text \<open>\<^verbatim>\<open>Array.prototype.slice(0, end)\<close>: a negative \<open>end\<close> counts from the end of the array.\<close>

definition slice0 :: "'a list \<Rightarrow> int \<Rightarrow> 'a list" where
  "slice0 xs e = (if e < 0 then take (nat (int (length xs) + e)) xs else take (nat e) xs)"

text \<open>
  The state of \<^verbatim>\<open>startMainLoop\<close>: the registry and the wallets the \<^verbatim>\<open>for\<close> loop of the
  current tick has still to launch (\<open>[]\<close> between ticks).
\<close>

record scheduler =
  loader :: walletLoader
  walletsToRun :: "address list"

text \<open>
  The head of one pass of the \<^verbatim>\<open>while\<close> loop (lines 143 to 165): when the running count
  has reached the ceiling, or nothing is selected, the loop sleeps with nothing to launch.
\<close>

definition tick :: "config \<Rightarrow> int \<Rightarrow> walletLoader \<Rightarrow> scheduler" where
  "tick cfg now L =
     (let (availableWallets, L1) = getAvailableWallets now L;
          runningWallets = getRunningWalletsCount L1
      in if runningWallets \<ge> maxConcurrent (cfg_wallets cfg)
         then \<lparr>loader = L1, walletsToRun = []\<rparr>
         else \<lparr>loader = L1,
               walletsToRun =
                 slice0 availableWallets (maxConcurrent (cfg_wallets cfg) - runningWallets)\<rparr>)"

text \<open>
  The states the loop and the wallet tasks it has launched can reach. The loop is the only
  caller of \<^verbatim>\<open>markWalletAsRunning\<close>, once per selected wallet; it suspends (\<^verbatim>\<open>await sleep\<close>)
  after each launch and between ticks, and there the launched tasks run: each may update
  balances and approvals and ends with \<^verbatim>\<open>markWalletAsCompleted\<close>. In finite-run mode the
  loop reads \<^verbatim>\<open>getWalletStats()\<close>, which calls \<^verbatim>\<open>getAvailableWallets\<close>. An exception in the
  loop body abandons the rest of the tick.
\<close>

inductive reachable :: "config \<Rightarrow> scheduler \<Rightarrow> bool" for cfg :: config where
  start: "mset order = mset addrs \<Longrightarrow>
     reachable cfg \<lparr>loader = loadWallets now addrs order, walletsToRun = []\<rparr>"
| next_tick: "reachable cfg S \<Longrightarrow> walletsToRun S = [] \<Longrightarrow>
     reachable cfg (tick cfg now (loader S))"
| launch: "reachable cfg S \<Longrightarrow> walletsToRun S = w # ws \<Longrightarrow>
     reachable cfg \<lparr>loader = markWalletAsRunning now w (loader S), walletsToRun = ws\<rparr>"
| task_completed: "reachable cfg S \<Longrightarrow>
     reachable cfg (S\<lparr>loader := markWalletAsCompleted cfg now r a success msg (loader S)\<rparr>)"
| task_balances: "reachable cfg S \<Longrightarrow>
     reachable cfg (S\<lparr>loader := updateWalletBalances now a newBalances (loader S)\<rparr>)"
| task_approval: "reachable cfg S \<Longrightarrow>
     reachable cfg (S\<lparr>loader := updateWalletApproval now a isPrior isApproved (loader S)\<rparr>)"
| loop_stats: "reachable cfg S \<Longrightarrow>
     reachable cfg (S\<lparr>loader := snd (getAvailableWallets now (loader S))\<rparr>)"
| loop_error: "reachable cfg S \<Longrightarrow> reachable cfg (S\<lparr>walletsToRun := []\<rparr>)"

section \<open>Errors and messages\<close>

text \<open>
  A thrown \<^verbatim>\<open>Error\<close> is its message, which is all the code inspects; a function that can
  throw, and a promise that can reject, returns \<open>string + 'a\<close> with \<open>Inl\<close> the message.
  Characters outside ASCII are written as their UTF-8 bytes.
\<close>

type_synonym 'a throws = "string + 'a"

definition startsWith :: "string \<Rightarrow> string \<Rightarrow> bool" where
  "startsWith s p = (take (length p) s = p)"

text \<open>\<^verbatim>\<open>String.prototype.includes\<close>.\<close>

fun includesStr :: "string \<Rightarrow> string \<Rightarrow> bool" where
  "includesStr [] p = (p = [])"
| "includesStr (c # cs) p = (startsWith (c # cs) p \<or> includesStr cs p)"

function decimalDigits :: "nat \<Rightarrow> string" where
  "decimalDigits n =
     (if n < 10 then [char_of (48 + n)]
      else decimalDigits (n div 10) @ [char_of (48 + n mod 10)])"
  by pat_completeness auto
termination
  by (relation "measure (\<lambda>n. n)") auto

declare decimalDigits.simps [simp del]

text \<open>The decimal numeral of an integer, as a template literal prints it.\<close>

definition decimal :: "int \<Rightarrow> string" where
  "decimal i = (if i < 0 then ''-'' @ decimalDigits (nat (- i)) else decimalDigits (nat i))"

text \<open>Line 703: the message of the timeout that races the action.\<close>

definition timeoutMessage :: string where
  "timeoutMessage = ''RPC '' @ [CHR 0xE8, CHR 0xAB, CHR 0x8B, CHR 0xE6, CHR 0xB1, CHR 0x82,
     CHR 0xE8, CHR 0xB6, CHR 0x85, CHR 0xE6, CHR 0x99, CHR 0x82]"

text \<open>Line 731: thrown when the loop ends with no error recorded.\<close>

definition retriesExhaustedMessage :: string where
  "retriesExhaustedMessage = ''RPC '' @ [CHR 0xE6, CHR 0x93, CHR 0x8D, CHR 0xE4, CHR 0xBD,
     CHR 0x9C, CHR 0xE5, CHR 0xA4, CHR 0xB1, CHR 0xE6, CHR 0x95, CHR 0x97, CHR 0xEF, CHR 0xBC,
     CHR 0x8C, CHR 0xE9, CHR 0x81, CHR 0x94, CHR 0xE5, CHR 0x88, CHR 0xB0, CHR 0xE6, CHR 0x9C,
     CHR 0x80, CHR 0xE5, CHR 0xA4, CHR 0xA7, CHR 0xE9, CHR 0x87, CHR 0x8D, CHR 0xE8, CHR 0xA9,
     CHR 0xA6, CHR 0xE6, CHR 0xAC, CHR 0xA1, CHR 0xE6, CHR 0x95, CHR 0xB8]"

text \<open>Line 514.\<close>

definition noRpcUrlMessage :: string where
  "noRpcUrlMessage = [CHR 0xE6, CHR 0x9C, CHR 0xAA, CHR 0xE9, CHR 0x85, CHR 0x8D, CHR 0xE7,
     CHR 0xBD, CHR 0xAE] @ '' RPC URL''"

text \<open>Line 550.\<close>

definition allProvidersUnavailableMessage :: string where
  "allProvidersUnavailableMessage = [CHR 0xE6, CHR 0x89, CHR 0x80, CHR 0xE6, CHR 0x9C, CHR 0x89]
     @ '' RPC '' @ [CHR 0xE6, CHR 0x8F, CHR 0x90, CHR 0xE4, CHR 0xBE, CHR 0x9B, CHR 0xE8,
     CHR 0x80, CHR 0x85, CHR 0xE9, CHR 0x83, CHR 0xBD, CHR 0xE4, CHR 0xB8, CHR 0x8D, CHR 0xE5,
     CHR 0x8F, CHR 0xAF, CHR 0xE7, CHR 0x94, CHR 0xA8, CHR 0xEF, CHR 0xBC, CHR 0x8C, CHR 0xE8,
     CHR 0xAB, CHR 0x8B, CHR 0xE6, CHR 0xAA, CHR 0xA2, CHR 0xE6, CHR 0x9F, CHR 0xA5, CHR 0xE7,
     CHR 0xB6, CHR 0xB2, CHR 0xE7, CHR 0xB5, CHR 0xA1, CHR 0xE9, CHR 0x80, CHR 0xA3, CHR 0xE6,
     CHR 0x8E, CHR 0xA5, CHR 0xE6, CHR 0x88, CHR 0x96] @ '' RPC URL''"

text \<open>Line 580.\<close>

definition chainIdMismatchMessage :: "int \<Rightarrow> int \<Rightarrow> string" where
  "chainIdMismatchMessage expected got =
     [CHR 0xE7, CHR 0xB6, CHR 0xB2, CHR 0xE7, CHR 0xB5, CHR 0xA1] @ '' ID '' @
     [CHR 0xE4, CHR 0xB8, CHR 0x8D, CHR 0xE5, CHR 0x8C, CHR 0xB9, CHR 0xE9, CHR 0x85, CHR 0x8D,
      CHR 0xEF, CHR 0xBC, CHR 0x8C, CHR 0xE9, CHR 0xA0, CHR 0x90, CHR 0xE6, CHR 0x9C, CHR 0x9F]
     @ '' '' @ decimal expected @
     [CHR 0xEF, CHR 0xBC, CHR 0x8C, CHR 0xE7, CHR 0x8D, CHR 0xB2, CHR 0xE5, CHR 0xBE, CHR 0x97]
     @ '' '' @ decimal got"

text \<open>
  The \<^verbatim>\<open>TypeError\<close> of reading a property of \<^verbatim>\<open>undefined\<close>, when an index is outside
  the provider array; its text is the engine's.
\<close>

definition typeErrorMessage :: string where
  "typeErrorMessage = ''Cannot read properties of undefined''"

section \<open>rpcManager: the endpoint pool\<close>

record provider =
  url :: string
  failCount :: int
  provider_lastError :: "string option"
  lastUsed :: int
  isCurrentlyTesting :: bool

record rpcManager =
  providers :: "provider list"
  currentProviderIndex :: nat

text \<open>
  The loop of \<^verbatim>\<open>switchToNextProvider\<close>: \<open>idx\<close> is \<^verbatim>\<open>this.currentProviderIndex\<close>, and the
  result is its value when the loop ends.
\<close>

function switchLoop :: "provider list \<Rightarrow> nat \<Rightarrow> nat \<Rightarrow> nat" where
  "switchLoop ps idx attempts =
     (if attempts < length ps
      then (let idx' = (idx + 1) mod length ps
            in if failCount (ps ! idx') = 0 then idx' else switchLoop ps idx' (attempts + 1))
      else idx)"
  by pat_completeness auto
termination
  by (relation "measure (\<lambda>(ps, idx, attempts). length ps - attempts)") auto

declare switchLoop.simps [simp del]

definition switchToNextProvider :: "rpcManager \<Rightarrow> rpcManager" where
  "switchToNextProvider M =
     M\<lparr>currentProviderIndex := switchLoop (providers M) (currentProviderIndex M) 0\<rparr>"

definition markCurrentProviderAsFailed :: "string \<Rightarrow> rpcManager \<Rightarrow> rpcManager throws" where
  "markCurrentProviderAsFailed errorMessage M =
     (if currentProviderIndex M < length (providers M)
      then (let i = currentProviderIndex M;
                p = providers M ! i;
                ps1 = (providers M)
                  [i := p\<lparr>failCount := failCount p + 1,
                          provider_lastError := Some errorMessage\<rparr>];
                ps2 = (if list_all (\<lambda>p. failCount p > 0) ps1
                       then map (\<lambda>p. p\<lparr>failCount := max 0 (failCount p - 1)\<rparr>) ps1
                       else ps1)
            in Inr (switchToNextProvider (M\<lparr>providers := ps2\<rparr>)))
      else Inl typeErrorMessage)"

text \<open>
  What one endpoint answers to the health probe: \<^verbatim>\<open>getNetwork()\<close> resolves to a chain id
  or rejects, and so does \<^verbatim>\<open>getBlockNumber()\<close>.
\<close>

record probe =
  getNetwork :: "int throws"
  getBlockNumber :: "int throws"

text \<open>
  \<^verbatim>\<open>testProvider\<close> is asynchronous. Up to its first \<^verbatim>\<open>await\<close> it checks and sets
  \<open>isCurrentlyTesting\<close> (\<open>testProviderBegin\<close>, \<open>None\<close> when it returns \<open>false\<close> at once);
  the rest runs when the endpoint has answered (\<open>testProviderEnd\<close>).
\<close>

definition testProviderBegin :: "nat \<Rightarrow> rpcManager \<Rightarrow> rpcManager option" where
  "testProviderBegin index M =
     (if isCurrentlyTesting (providers M ! index) then None
      else Some (M\<lparr>providers :=
        (providers M)[index := (providers M ! index)\<lparr>isCurrentlyTesting := True\<rparr>]\<rparr>))"

definition testProviderEnd :: "config \<Rightarrow> probe \<Rightarrow> nat \<Rightarrow> rpcManager \<Rightarrow> bool \<times> rpcManager" where
  "testProviderEnd cfg answer index M =
     (let p = providers M ! index;
          failed = (\<lambda>message.
            (False, M\<lparr>providers := (providers M)
               [index := p\<lparr>failCount := failCount p + 1, provider_lastError := Some message,
                           isCurrentlyTesting := False\<rparr>]\<rparr>))
      in case getNetwork answer of
           Inl message \<Rightarrow> failed message
         | Inr chainId \<Rightarrow>
             if chainId \<noteq> cfg_chainId cfg
             then failed (chainIdMismatchMessage (cfg_chainId cfg) chainId)
             else (case getBlockNumber answer of
                     Inl message \<Rightarrow> failed message
                   | Inr blockNumber \<Rightarrow>
                       (True, M\<lparr>providers := (providers M)
                          [index := p\<lparr>failCount := 0, provider_lastError := None,
                                      isCurrentlyTesting := False\<rparr>]\<rparr>)))"

definition testProvider :: "config \<Rightarrow> (string \<Rightarrow> probe) \<Rightarrow> nat \<Rightarrow> rpcManager \<Rightarrow> bool \<times> rpcManager" where
  "testProvider cfg answers index M =
     (case testProviderBegin index M of
        None \<Rightarrow> (False, M)
      | Some M1 \<Rightarrow> testProviderEnd cfg (answers (url (providers M1 ! index))) index M1)"

text \<open>\<^verbatim>\<open>Array.prototype.findIndex\<close>, \<open>None\<close> for \<open>-1\<close>.\<close>

fun findIndex :: "('a \<Rightarrow> bool) \<Rightarrow> 'a list \<Rightarrow> nat option" where
  "findIndex P [] = None"
| "findIndex P (x # xs) = (if P x then Some 0 else map_option Suc (findIndex P xs))"

text \<open>
  \<^verbatim>\<open>testAllProviders\<close>, run to completion with nothing else touching the pool: the value
  its promise resolves to, or the message it rejects with. The \<^verbatim>\<open>for\<close> loop visits the
  indices in order.
\<close>

definition testAllProviders :: "config \<Rightarrow> (string \<Rightarrow> probe) \<Rightarrow> rpcManager \<Rightarrow> rpcManager throws" where
  "testAllProviders cfg answers M =
     (let M1 = fold (\<lambda>i M'. snd (testProvider cfg answers i M')) [0 ..< length (providers M)] M
      in case findIndex (\<lambda>p. failCount p = 0) (providers M1) of
           None \<Rightarrow> Inl allProvidersUnavailableMessage
         | Some i \<Rightarrow> Inr (M1\<lparr>currentProviderIndex := i\<rparr>))"

text \<open>
  The constructor and \<^verbatim>\<open>initializeProviders\<close>: \<open>freshManager\<close> is the pool of lines
  520 to 529 and of the constructor's \<^verbatim>\<open>currentProviderIndex = 0\<close>. Line 532 calls the asynchronous
  \<^verbatim>\<open>testAllProviders()\<close> and drops its promise: the call runs up to the first \<^verbatim>\<open>await\<close>,
  inside \<^verbatim>\<open>testProvider(0)\<close>, and returns. So the constructor's result does not
  depend on what the endpoints answer; the probes complete, and the promise settles, after
  the constructor has returned.
\<close>

definition freshManager :: "config \<Rightarrow> rpcManager" where
  "freshManager cfg =
     \<lparr>providers =
        map (\<lambda>u. \<lparr>url = u, failCount = 0, provider_lastError = None, lastUsed = 0,
                   isCurrentlyTesting = False\<rparr>)
          (urls (cfg_rpc cfg)),
      currentProviderIndex = 0\<rparr>"

definition initializeProviders :: "config \<Rightarrow> rpcManager throws" where
  "initializeProviders cfg =
     (if urls (cfg_rpc cfg) = [] then Inl noRpcUrlMessage
      else (case testProviderBegin 0 (freshManager cfg) of
              None \<Rightarrow> Inr (freshManager cfg)
            | Some M1 \<Rightarrow> Inr M1))"

definition newRpcManager :: "config \<Rightarrow> rpcManager throws" where
  "newRpcManager cfg = initializeProviders cfg"

subsection \<open>withProvider: the resilient call wrapper\<close>

text \<open>
  One invocation of \<^verbatim>\<open>action()\<close> raced against the timeout: it returns a value, throws
  an error with a message, or loses the race. The action is given the number of the
  attempt and the pool, whose current provider it calls.
\<close>

datatype 'a attempt = Returned 'a | Thrown string | TimedOut

text \<open>What the wrapper does, in order.\<close>

datatype rpcEvent = Invoked nat | MarkedFailed string | Slept int

text \<open>Lines 716 to 721.\<close>

definition isTransportError :: "string \<Rightarrow> bool" where
  "isTransportError message =
     (includesStr message ''timeout'' \<or> includesStr message ''server error'' \<or>
      includesStr message ''network error'' \<or> includesStr message ''connection refused'')"

text \<open>The error the \<^verbatim>\<open>catch\<close> block of the wrapper sees after a failed attempt.\<close>

definition caughtMessage :: "'a attempt \<Rightarrow> string" where
  "caughtMessage failure = (case failure of Thrown m \<Rightarrow> m | _ \<Rightarrow> timeoutMessage)"

function withProviderLoop ::
  "(nat \<Rightarrow> rpcManager \<Rightarrow> 'a attempt) \<Rightarrow> int \<Rightarrow> int \<Rightarrow> nat \<Rightarrow> string option \<Rightarrow> rpcManager
     \<Rightarrow> 'a throws \<times> rpcManager \<times> rpcEvent list" where
  "withProviderLoop action maxRetries' retryDelay' retries lastError' M =
     (if int retries \<le> maxRetries'
      then (case action retries M of
              Returned result \<Rightarrow> (Inr result, M, [Invoked retries])
            | failure \<Rightarrow>
                (let message = caughtMessage failure;
                     sleep = (if int (retries + 1) \<le> maxRetries' then [Slept retryDelay'] else [])
                 in if isTransportError message
                    then (case markCurrentProviderAsFailed message M of
                            Inl typeError \<Rightarrow> (Inl typeError, M, [Invoked retries])
                          | Inr M' \<Rightarrow>
                              (let (r, M'', events) = withProviderLoop action maxRetries' retryDelay'
                                     (retries + 1) (Some message) M'
                               in (r, M'', Invoked retries # MarkedFailed message # sleep @ events)))
                    else (let (r, M'', events) = withProviderLoop action maxRetries' retryDelay'
                                (retries + 1) (Some message) M
                          in (r, M'', Invoked retries # sleep @ events))))
      else (Inl (case lastError' of Some m \<Rightarrow> m | None \<Rightarrow> retriesExhaustedMessage), M, []))"
  by pat_completeness auto
termination
  by (relation "measure (\<lambda>(action, maxRetries', retryDelay', retries, lastError', M).
        nat (maxRetries' + 1 - int retries))") auto

declare withProviderLoop.simps [simp del]

text \<open>The options of a call; a missing one is taken from the configuration.\<close>

record callOptions =
  opt_maxRetries :: "int option"
  opt_retryDelay :: "int option"
  opt_timeoutMs :: "int option"

definition effectiveMaxRetries :: "config \<Rightarrow> callOptions \<Rightarrow> int" where
  "effectiveMaxRetries cfg options =
     (case opt_maxRetries options of Some n \<Rightarrow> n | None \<Rightarrow> maxRetries (cfg_rpc cfg))"

definition effectiveRetryDelay :: "config \<Rightarrow> callOptions \<Rightarrow> int" where
  "effectiveRetryDelay cfg options =
     (case opt_retryDelay options of Some n \<Rightarrow> n | None \<Rightarrow> retryDelay (cfg_rpc cfg))"

definition noOptions :: callOptions where
  "noOptions = \<lparr>opt_maxRetries = None, opt_retryDelay = None, opt_timeoutMs = None\<rparr>"

definition withProvider ::
  "config \<Rightarrow> (nat \<Rightarrow> rpcManager \<Rightarrow> 'a attempt) \<Rightarrow> callOptions \<Rightarrow> rpcManager
     \<Rightarrow> 'a throws \<times> rpcManager \<times> rpcEvent list" where
  "withProvider cfg action options M =
     withProviderLoop action (effectiveMaxRetries cfg options) (effectiveRetryDelay cfg options)
       0 None M"

section \<open>constants and utils: transaction sequences\<close>

datatype txType = FAUCET | APPROVE_PRIOR | APPROVE_USDC | SWAP_PRIOR_TO_USDC | SWAP_USDC_TO_PRIOR

text \<open>The array \<^verbatim>\<open>transactionTypes\<close> of lines 108 to 111.\<close>

definition transactionTypes :: "txType list" where
  "transactionTypes = [SWAP_PRIOR_TO_USDC, SWAP_USDC_TO_PRIOR]"

text \<open>
  The \<^verbatim>\<open>while\<close> loop of \<^verbatim>\<open>generateTransactionSequence\<close>. An element of the sequence is a
  transaction type or \<^verbatim>\<open>undefined\<close> (\<open>None\<close>): reading the last element of the empty
  sequence, or \<^verbatim>\<open>availableTypes\<close> outside its bounds, gives \<^verbatim>\<open>undefined\<close>. The draw
  number \<open>k\<close> of \<^verbatim>\<open>Math.random()\<close> is \<open>rnd k\<close>.
\<close>

function generateLoop :: "(nat \<Rightarrow> rat) \<Rightarrow> int \<Rightarrow> nat \<Rightarrow> txType option list \<Rightarrow> txType option list" where
  "generateLoop rnd txCount k sequence =
     (if int (length sequence) < txCount
      then (let lastType = (if sequence = [] then None else last sequence);
                availableTypes = filter (\<lambda>type. Some type \<noteq> lastType) transactionTypes;
                index = \<lfloor>rnd k * of_int (int (length availableTypes))\<rfloor>;
                randomType = (if 0 \<le> index \<and> index < int (length availableTypes)
                              then Some (availableTypes ! nat index) else None)
            in generateLoop rnd txCount (k + 1) (sequence @ [randomType]))
      else sequence)"
  by pat_completeness auto
termination
  by (relation "measure (\<lambda>(rnd, txCount, k, sequence). nat (txCount - int (length sequence)))") auto

declare generateLoop.simps [simp del]

definition generateTransactionSequence :: "config \<Rightarrow> (nat \<Rightarrow> rat) \<Rightarrow> txType option list" where
  "generateTransactionSequence cfg rnd =
     (let txCount = getRandomInRange (minTransactionsPerWallet (cfg_transactions cfg))
                    (maxTransactionsPerWallet (cfg_transactions cfg)) (rnd 0);
          sequence = (if alwaysStartWithPriorToUsdc (patterns (cfg_transactions cfg))
                      then [Some SWAP_PRIOR_TO_USDC] else [])
      in generateLoop rnd txCount 1 sequence)"

section \<open>swapEngine: fee escalation\<close>


text \<open>
  One entry of \<^verbatim>\<open>gasSettings\<close>. The two fees are decimal strings in the source
  (\<^verbatim>\<open>"0.0014"\<close>, and after an escalation the result of \<^verbatim>\<open>toFixed(6)\<close>), here the
  rationals they denote.
\<close>

record feeProfile =
  gasLimitMin :: int
  gasLimitMax :: int
  maxFeePerGas :: rat
  maxPriorityFeePerGas :: rat
  fee_maxRetries :: int
  retryMultiplier :: rat



text \<open>
  JavaScript numbers are IEEE doubles. A double is the rational it denotes, and
  \<open>toDouble x\<close> is the double nearest to \<open>x\<close>, a tie going to the even significand: the
  value of a decimal literal or of \<^verbatim>\<open>parseFloat\<close> on a decimal string, and, applied to an
  exact product, the product of two doubles. \<open>binaryExponent x\<close> is the \<open>e\<close> with
  \<open>2\<^sup>e \<le> x < 2\<^sup>e\<^sup>+\<^sup>1\<close>, and a double has 53 significant bits. Magnitudes are taken within
  the range of normal doubles, below \<open>2\<^sup>1\<^sup>0\<^sup>2\<^sup>4\<close>.
\<close>

definition pow2 :: "int \<Rightarrow> rat" where
  "pow2 e = (if 0 \<le> e then 2 ^ nat e else 1 / 2 ^ nat (- e))"

function binaryExponent :: "rat \<Rightarrow> int" where
  "binaryExponent x =
     (if x \<le> 0 then 0
      else if 2 \<le> x then binaryExponent (x / 2) + 1
      else if x < 1 then binaryExponent (x * 2) - 1
      else 0)"
  by pat_completeness auto
termination
proof (relation "measure (\<lambda>x. nat \<lfloor>x\<rfloor> + 2 * nat \<lceil>1 / x\<rceil>)")
  show "wf (measure (\<lambda>x :: rat. nat \<lfloor>x\<rfloor> + 2 * nat \<lceil>1 / x\<rceil>))"
    by simp
next
  fix x :: rat
  assume "\<not> x \<le> 0" and big: "2 \<le> x"
  have c1: "\<lceil>1 / x\<rceil> = 1"
    using big by (simp add: ceiling_eq_iff)
  have c2: "\<lceil>1 / (x / 2)\<rceil> = 1"
    using big by (simp add: ceiling_eq_iff)
  have "x / 2 \<le> x - 1" using big by simp
  then have "\<lfloor>x / 2\<rfloor> \<le> \<lfloor>x - 1\<rfloor>" by (rule floor_mono)
  then have f: "\<lfloor>x / 2\<rfloor> < \<lfloor>x\<rfloor>" by simp
  have "0 \<le> x / 2" using big by simp
  then have g: "0 \<le> \<lfloor>x / 2\<rfloor>" by (simp only: zero_le_floor)
  have "nat \<lfloor>x / 2\<rfloor> + 2 * nat \<lceil>1 / (x / 2)\<rceil> < nat \<lfloor>x\<rfloor> + 2 * nat \<lceil>1 / x\<rceil>"
    unfolding c1 c2 using f g by linarith
  then show "(x / 2, x) \<in> measure (\<lambda>x. nat \<lfloor>x\<rfloor> + 2 * nat \<lceil>1 / x\<rceil>)"
    by (simp only: in_measure)
next
  fix x :: rat
  assume pos: "\<not> x \<le> 0" and "\<not> 2 \<le> x" and small: "x < 1"
  have f0: "\<lfloor>x\<rfloor> = 0" using pos small by (simp add: floor_eq_iff)
  have "nat \<lfloor>x * 2\<rfloor> + 2 * nat \<lceil>1 / (x * 2)\<rceil> < nat \<lfloor>x\<rfloor> + 2 * nat \<lceil>1 / x\<rceil>"
  proof (cases "1 / 2 \<le> x")
    case True
    have f2: "\<lfloor>x * 2\<rfloor> = 1" using True small by (simp add: floor_eq_iff)
    have c2: "\<lceil>1 / (x * 2)\<rceil> = 1"
      using True pos by (simp add: ceiling_eq_iff field_simps)
    have c1: "\<lceil>1 / x\<rceil> = 2"
      using True pos small by (simp add: ceiling_eq_iff field_simps)
    show ?thesis unfolding f0 f2 c1 c2 by simp
  next
    case False
    then have h: "x < 1 / 2" by simp
    have f2: "\<lfloor>x * 2\<rfloor> = 0" using h pos by (simp add: floor_eq_iff)
    have "2 < 1 / x" using h pos by (simp add: field_simps)
    then have "1 / x / 2 \<le> 1 / x - 1" by simp
    then have "1 / (x * 2) \<le> 1 / x - 1" by simp
    then have "\<lceil>1 / (x * 2)\<rceil> \<le> \<lceil>1 / x - 1\<rceil>" by (rule ceiling_mono)
    then have c: "\<lceil>1 / (x * 2)\<rceil> < \<lceil>1 / x\<rceil>" by simp
    have "0 < 1 / (x * 2)" using pos by simp
    then have p: "0 < \<lceil>1 / (x * 2)\<rceil>" by (simp only: zero_less_ceiling)
    show ?thesis unfolding f0 f2 using c p by linarith
  qed
  then show "(x * 2, x) \<in> measure (\<lambda>x. nat \<lfloor>x\<rfloor> + 2 * nat \<lceil>1 / x\<rceil>)"
    by (simp only: in_measure)
qed

declare binaryExponent.simps [simp del]

text \<open>The nearest integer, a tie going to the even one.\<close>

definition roundHalfEven :: "rat \<Rightarrow> int" where
  "roundHalfEven x =
     (let f = \<lfloor>x\<rfloor>; d = x - of_int f
      in if d < 1 / 2 then f else if 1 / 2 < d then f + 1 else if even f then f else f + 1)"

definition toDouble :: "rat \<Rightarrow> rat" where
  "toDouble x =
     (if x = 0 then 0
      else (let ulp = pow2 (binaryExponent \<bar>x\<bar> - 52)
            in of_int (roundHalfEven (x / ulp)) * ulp))"

text \<open>
  \<^verbatim>\<open>Number.prototype.toFixed(6)\<close> of a double, read back as the decimal it prints: the
  multiple of \<open>10\<^sup>-\<^sup>6\<close> nearest to the double's exact value, a tie going to the larger
  magnitude.
\<close>

definition toFixed6 :: "rat \<Rightarrow> rat" where
  "toFixed6 x =
     (if x < 0 then - (of_int \<lfloor>- x * 1000000 + 1 / 2\<rfloor> / 1000000)
      else of_int \<lfloor>x * 1000000 + 1 / 2\<rfloor> / 1000000)"



text \<open>
  \<^verbatim>\<open>settings.retryMultiplier || 1.3\<close>, a double: \<open>retryMultiplier\<close> holds the decimal
  literal of the configuration.
\<close>

definition effectiveMultiplier :: "feeProfile \<Rightarrow> rat" where
  "effectiveMultiplier settings =
     (if toDouble (retryMultiplier settings) = 0 then toDouble (13 / 10)
      else toDouble (retryMultiplier settings))"

text \<open>\<^verbatim>\<open>(parseFloat(fee) * multiplier).toFixed(6)\<close>, lines 371 and 372.\<close>

definition escalatedFee :: "rat \<Rightarrow> rat \<Rightarrow> rat" where
  "escalatedFee fee multiplier = toFixed6 (toDouble (toDouble fee * multiplier))"





section \<open>swapEngine: the task executor\<close>

datatype token = PriorToken | UsdcToken

datatype swapType = PriorToUsdc | UsdcToPrior

text \<open>
  The remote calls of the executor, over a state \<open>'w\<close> of the chain as the wallet sees it:
  each returns or throws. \<open>readTokenBalances\<close> gives the PRIOR and the USDC balance.
\<close>

record 'w chain =
  readEthBalance :: "'w \<Rightarrow> int throws"
  readTokenBalances :: "'w \<Rightarrow> (int \<times> int) throws"
  readAllowance :: "token \<Rightarrow> 'w \<Rightarrow> bool throws"
  requestFaucet :: "'w \<Rightarrow> 'w throws"
  approveToken :: "token \<Rightarrow> 'w \<Rightarrow> 'w throws"
  executeSwap :: "swapType \<Rightarrow> 'w \<Rightarrow> 'w throws"

text \<open>
  The thresholds the executor compares balances with, in base units: 0.001 ETH, and
  \<^verbatim>\<open>minBalanceThresholds\<close> scaled by each token's decimals.
\<close>

record thresholds =
  minEthBalance :: int
  minPriorBalance :: int
  minUsdcBalance :: int

datatype engineEvent = Delay int | Step txType

text \<open>\<^verbatim>\<open>Array.prototype.indexOf\<close>: the first position of the value, or \<open>-1\<close>.\<close>

fun indexOf :: "'a list \<Rightarrow> 'a \<Rightarrow> int" where
  "indexOf [] x = - 1"
| "indexOf (y # ys) x =
     (if y = x then 0 else (let i = indexOf ys x in if i < 0 then - 1 else i + 1))"

text \<open>The body of the loop after the delay (lines 431 to 476); \<open>Inr\<close> also when it skips.\<close>

definition stepBody :: "thresholds \<Rightarrow> 'w chain \<Rightarrow> txType \<Rightarrow> 'w \<Rightarrow> 'w throws" where
  "stepBody T C txType w =
     (if txType = SWAP_PRIOR_TO_USDC
      then (case readTokenBalances C w of
              Inl e \<Rightarrow> Inl e
            | Inr (priorBalance, usdcBalance) \<Rightarrow>
                if priorBalance < minPriorBalance T then Inr w
                else (case readAllowance C PriorToken w of
                        Inl e \<Rightarrow> Inl e
                      | Inr isPriorApproved \<Rightarrow>
                          (case (if \<not> isPriorApproved then approveToken C PriorToken w else Inr w) of
                             Inl e \<Rightarrow> Inl e
                           | Inr w1 \<Rightarrow> executeSwap C PriorToUsdc w1)))
      else if txType = SWAP_USDC_TO_PRIOR
      then (case readTokenBalances C w of
              Inl e \<Rightarrow> Inl e
            | Inr (priorBalance, usdcBalance) \<Rightarrow>
                if usdcBalance < minUsdcBalance T then Inr w
                else (case readAllowance C UsdcToken w of
                        Inl e \<Rightarrow> Inl e
                      | Inr isUsdcApproved \<Rightarrow>
                          (case (if \<not> isUsdcApproved then approveToken C UsdcToken w else Inr w) of
                             Inl e \<Rightarrow> Inl e
                           | Inr w1 \<Rightarrow> executeSwap C UsdcToPrior w1)))
      else Inr w)"

text \<open>
  The \<^verbatim>\<open>for\<close> loop of lines 420 to 477 over the rest of the sequence; \<open>position\<close> is the
  number of steps already taken and \<open>rnd position\<close> the draw of the step's delay. The
  result says whether the loop ended without an exception, with the delays and steps in
  the order they happened.
\<close>

fun runSteps ::
  "config \<Rightarrow> thresholds \<Rightarrow> 'w chain \<Rightarrow> (nat \<Rightarrow> rat) \<Rightarrow> txType list \<Rightarrow> nat \<Rightarrow> txType list \<Rightarrow> 'w
     \<Rightarrow> bool \<times> engineEvent list" where
  "runSteps cfg T C rnd txSequence position [] w = (True, [])"
| "runSteps cfg T C rnd txSequence position (txType # rest) w =
     (let delay =
            (if indexOf txSequence txType > 0
             then [Delay (getRandomInRange
                            (range_min (betweenTransactions (cfg_delays cfg)))
                            (range_max (betweenTransactions (cfg_delays cfg))) (rnd position))]
             else [])
      in case stepBody T C txType w of
           Inl e \<Rightarrow> (False, delay @ [Step txType])
         | Inr w1 \<Rightarrow>
             (let (ok, events) = runSteps cfg T C rnd txSequence (position + 1) rest w1
              in (ok, delay @ Step txType # events)))"

definition executeTransactionSequence ::
  "config \<Rightarrow> thresholds \<Rightarrow> 'w chain \<Rightarrow> (nat \<Rightarrow> rat) \<Rightarrow> txType list \<Rightarrow> 'w \<Rightarrow> bool \<times> engineEvent list" where
  "executeTransactionSequence cfg T C rnd txSequence w =
     (case readEthBalance C w of
        Inl e \<Rightarrow> (False, [])
      | Inr ethBalance \<Rightarrow>
          if ethBalance < minEthBalance T then (False, [])
          else (case readTokenBalances C w of
                  Inl e \<Rightarrow> (False, [])
                | Inr (priorBalance, usdcBalance) \<Rightarrow>
                    (case (if priorBalance = 0 \<and> requireFaucet (cfg_wallets cfg)
                           then (case requestFaucet C w of
                                   Inl e \<Rightarrow> Inl e
                                 | Inr w1 \<Rightarrow>
                                     (case readTokenBalances C w1 of
                                        Inl e \<Rightarrow> Inl e | Inr b \<Rightarrow> Inr w1))
                           else Inr w) of
                       Inl e \<Rightarrow> (False, [])
                     | Inr w2 \<Rightarrow> runSteps cfg T C rnd txSequence 0 txSequence w2)))"

chapter \<open>Verified properties\<close>

section \<open>Auxiliary facts\<close>

lemma floor_rat_numeral_divide:
  "\<lfloor>(numeral a :: rat) / numeral b\<rfloor> = numeral a div numeral b"
  using floor_divide_of_int_eq [of "numeral a" "numeral b", where ?'a = rat] by simp

lemma getRandomInRange_bounds:
  assumes "0 \<le> r" "r < 1" "mn \<le> mx"
  shows "mn \<le> getRandomInRange mn mx r \<and> getRandomInRange mn mx r \<le> mx"
proof -
  let ?n = "mx - mn + 1"
  have n: "0 < ?n" using assms by simp
  have "0 \<le> r * of_int ?n" using assms n by simp
  then have lo: "0 \<le> \<lfloor>r * of_int ?n\<rfloor>" by simp
  have "r * of_int ?n < of_int ?n" using assms n by simp
  then have hi: "\<lfloor>r * of_int ?n\<rfloor> < ?n" by (simp only: floor_less_iff)
  show ?thesis unfolding getRandomInRange_def using lo hi by linarith
qed

lemmas registry_defs = loadWallets_def initializeWalletState_def initialState_def
  getWalletState_def getAvailableWallets_def tick_def getRunningWalletsCount_def slice0_def
  shippedConfig_def markWalletAsRunning_def updateWalletState_def Let_def
  markWalletAsCompleted_def retires_def getRandomInRange_def shortBackoffMin_def
  shortBackoffMax_def MAX_SAFE_INTEGER_def

section \<open>The registry\<close>

lemma getWalletState_stored:
  "map_of (walletStates (snd (getWalletState now a L))) a = Some (fst (getWalletState now a L))"
  by (simp add: getWalletState_def initializeWalletState_def update_conv' split: option.splits)

lemma getWalletState_known:
  "map_of (walletStates L) a = Some s \<Longrightarrow> getWalletState now a L = (s, L)"
  by (simp add: getWalletState_def)

lemma getWalletState_again:
  "getWalletState now a (snd (getWalletState now a L))
     = (fst (getWalletState now a L), snd (getWalletState now a L))"
  by (simp add: getWalletState_def initializeWalletState_def update_conv' split: option.splits)

lemma updateWalletState_lookup:
  "map_of (walletStates (updateWalletState now a upd L)) a
     = Some (upd (fst (getWalletState now a L)))"
  by (simp add: updateWalletState_def update_conv' split: prod.splits)

subsection \<open>Counting the running wallets\<close>

lemma count_update_fresh:
  "map_of al k = None \<Longrightarrow>
   length (filter (P \<circ> snd) (AList.update k v al))
     = length (filter (P \<circ> snd) al) + (if P v then 1 else 0)"
  by (induction al) auto

lemma count_update_present:
  "map_of al k = Some s \<Longrightarrow>
   length (filter (P \<circ> snd) (AList.update k v al)) + (if P s then 1 else 0)
     = length (filter (P \<circ> snd) al) + (if P v then 1 else 0)"
  by (induction al) auto

lemma getWalletState_count:
  "getRunningWalletsCount (snd (getWalletState now a L)) = getRunningWalletsCount L"
  by (simp add: getWalletState_def getRunningWalletsCount_def initializeWalletState_def
      count_update_fresh initialState_def filter_map split: option.splits)

lemma updateWalletState_count:
  "getRunningWalletsCount (updateWalletState now a upd L)
     + (if isRunning (fst (getWalletState now a L)) then 1 else 0)
   = getRunningWalletsCount L + (if isRunning (upd (fst (getWalletState now a L))) then 1 else 0)"
proof -
  obtain cur L1 where g: "getWalletState now a L = (cur, L1)"
    by (cases "getWalletState now a L")
  have st: "map_of (walletStates L1) a = Some cur"
    using getWalletState_stored [of now a L] g by simp
  have c: "getRunningWalletsCount L1 = getRunningWalletsCount L"
    using getWalletState_count [of now a L] g by simp
  show ?thesis
    using count_update_present [OF st, of isRunning "upd cur"] c
    by (simp add: updateWalletState_def g getRunningWalletsCount_def filter_map split: if_splits)
qed

lemma updateWalletState_count_le:
  "(isRunning (upd (fst (getWalletState now a L))) \<Longrightarrow> isRunning (fst (getWalletState now a L)))
   \<Longrightarrow> getRunningWalletsCount (updateWalletState now a upd L) \<le> getRunningWalletsCount L"
  using updateWalletState_count [of now a upd L] by (auto split: if_splits)

lemma markWalletAsRunning_count:
  "getRunningWalletsCount (markWalletAsRunning now a L) \<le> getRunningWalletsCount L + 1"
  using updateWalletState_count
    [of now a "\<lambda>s. s\<lparr>isRunning := True, lastRunTime := now, status := Running\<rparr>" L]
  unfolding markWalletAsRunning_def by (simp split: if_splits)

lemma markWalletAsCompleted_count:
  "getRunningWalletsCount (markWalletAsCompleted cfg now r a success msg L)
     \<le> getRunningWalletsCount L"
proof -
  obtain st L1 where g: "getWalletState now a L = (st, L1)"
    by (cases "getWalletState now a L")
  have c1: "getRunningWalletsCount L1 = getRunningWalletsCount L"
    using getWalletState_count [of now a L] g by simp
  have stops: "\<And>upd. (\<And>s. \<not> isRunning (upd s)) \<Longrightarrow>
      getRunningWalletsCount (updateWalletState now a upd L1) \<le> getRunningWalletsCount L"
    using updateWalletState_count_le [of _ now a L1] c1 by metis
  have keeps: "\<And>M. getRunningWalletsCount
        (updateWalletState now a (\<lambda>s. s\<lparr>status := Retired, nextRunTime := MAX_SAFE_INTEGER\<rparr>) M)
        \<le> getRunningWalletsCount M"
    by (rule updateWalletState_count_le) simp
  show ?thesis
    unfolding markWalletAsCompleted_def g
    apply (simp add: Let_def)
    apply (intro conjI impI)
       apply (rule order_trans [OF keeps], rule stops, simp)
      apply (rule stops, simp)
     apply (rule order_trans [OF keeps], rule stops, simp)
    apply (rule stops, simp)
    done
qed

lemma updateWalletBalances_count:
  "getRunningWalletsCount (updateWalletBalances now a nb L) \<le> getRunningWalletsCount L"
proof -
  obtain st L1 where g: "getWalletState now a L = (st, L1)"
    by (cases "getWalletState now a L")
  have c1: "getRunningWalletsCount L1 = getRunningWalletsCount L"
    using getWalletState_count [of now a L] g by simp
  have "getRunningWalletsCount
          (updateWalletState now a (\<lambda>s. s\<lparr>balances := nb (balances st)\<rparr>) L1)
          \<le> getRunningWalletsCount L1"
    by (rule updateWalletState_count_le) simp
  then show ?thesis by (simp add: updateWalletBalances_def g c1)
qed

lemma updateWalletApproval_count:
  "getRunningWalletsCount (updateWalletApproval now a isPrior isApproved L)
     \<le> getRunningWalletsCount L"
proof -
  obtain st L1 where g: "getWalletState now a L = (st, L1)"
    by (cases "getWalletState now a L")
  have c1: "getRunningWalletsCount L1 = getRunningWalletsCount L"
    using getWalletState_count [of now a L] g by simp
  have "\<And>ap. getRunningWalletsCount (updateWalletState now a (\<lambda>s. s\<lparr>approvals := ap\<rparr>) L1)
          \<le> getRunningWalletsCount L1"
    by (rule updateWalletState_count_le) simp
  then show ?thesis by (simp add: updateWalletApproval_def g c1 Let_def)
qed

lemma availableFrom_count:
  "getRunningWalletsCount (snd (availableFrom now ws L)) = getRunningWalletsCount L"
proof (induction ws arbitrary: L)
  case Nil
  then show ?case by simp
next
  case (Cons w ws)
  obtain st L1 where g: "getWalletState now w L = (st, L1)"
    by (cases "getWalletState now w L")
  have c1: "getRunningWalletsCount L1 = getRunningWalletsCount L"
    using getWalletState_count [of now w L] g by simp
  show ?case using Cons.IH [of L1] c1 by (simp add: g case_prod_beta)
qed

lemma initializeWalletState_count:
  "getRunningWalletsCount (initializeWalletState now a L) \<le> getRunningWalletsCount L"
proof (cases "map_of (walletStates L) a")
  case None
  then show ?thesis
    by (simp add: getRunningWalletsCount_def initializeWalletState_def count_update_fresh
        initialState_def filter_map)
next
  case (Some s)
  show ?thesis
    using count_update_present [OF Some, of isRunning "initialState now"]
    by (simp add: getRunningWalletsCount_def initializeWalletState_def filter_map
        initialState_def split: if_splits)
qed

lemma fold_initialize_count:
  "getRunningWalletsCount (fold (initializeWalletState now) addrs L) \<le> getRunningWalletsCount L"
proof (induction addrs arbitrary: L)
  case Nil
  then show ?case by simp
next
  case (Cons a addrs)
  show ?case
    using Cons.IH [of "initializeWalletState now a L"] initializeWalletState_count [of now a L]
    by simp
qed

lemma loadWallets_count: "getRunningWalletsCount (loadWallets now addrs order) = 0"
proof -
  have "getRunningWalletsCount
          (fold (initializeWalletState now) addrs \<lparr>wallets = [], walletStates = []\<rparr>) \<le> 0"
    using fold_initialize_count [of now addrs "\<lparr>wallets = [], walletStates = []\<rparr>"]
    by (simp add: getRunningWalletsCount_def)
  then show ?thesis by (simp add: loadWallets_def getRunningWalletsCount_def)
qed

section \<open>The scheduler loop\<close>

lemma length_slice0: "0 \<le> e \<Longrightarrow> int (length (slice0 xs e)) \<le> e"
  by (simp add: slice0_def)

lemma tick_bound:
  "int (length (walletsToRun (tick cfg now L)))
     \<le> max 0 (maxConcurrent (cfg_wallets cfg) - getRunningWalletsCount L)
   \<and> getRunningWalletsCount (loader (tick cfg now L)) = getRunningWalletsCount L"
proof -
  obtain av L1 where g: "getAvailableWallets now L = (av, L1)"
    by (cases "getAvailableWallets now L")
  have c1: "getRunningWalletsCount L1 = getRunningWalletsCount L"
    using availableFrom_count [of now "wallets L" L] g by (simp add: getAvailableWallets_def)
  show ?thesis
    using length_slice0 [of "maxConcurrent (cfg_wallets cfg) - getRunningWalletsCount L" av]
    by (simp add: tick_def g c1 Let_def)
qed

text \<open>
  The invariant of the loop: the running wallets and the wallets still to launch in this
  tick together fit under the ceiling.
\<close>

lemma reachable_budget:
  assumes "reachable cfg S" and "0 \<le> maxConcurrent (cfg_wallets cfg)"
  shows "getRunningWalletsCount (loader S) + int (length (walletsToRun S))
           \<le> maxConcurrent (cfg_wallets cfg)"
  using assms
proof (induction rule: reachable.induct)
  case (start order addrs now)
  then show ?case by (simp add: loadWallets_count)
next
  case (next_tick S now)
  have "getRunningWalletsCount (loader S) \<le> maxConcurrent (cfg_wallets cfg)"
    using next_tick.IH next_tick.prems by simp
  then show ?case using tick_bound [of cfg now "loader S"] by linarith
next
  case (launch S w ws now)
  then show ?case using markWalletAsRunning_count [of now w "loader S"] by simp
next
  case (task_completed S now r a success msg)
  then show ?case
    using markWalletAsCompleted_count [of cfg now r a success msg "loader S"] by simp
next
  case (task_balances S now a newBalances)
  then show ?case using updateWalletBalances_count [of now a newBalances "loader S"] by simp
next
  case (task_approval S now a isPrior isApproved)
  then show ?case
    using updateWalletApproval_count [of now a isPrior isApproved "loader S"] by simp
next
  case (loop_stats S now)
  then show ?case
    using availableFrom_count [of now "wallets (loader S)" "loader S"]
    by (simp add: getAvailableWallets_def)
next
  case (loop_error S)
  then show ?case by simp
qed

lemma example_run_reachable:
  "reachable shippedConfig
     \<lparr>loader = markWalletAsRunning 20 ''0xB''
                 (loadWallets 0 [''0xA'', ''0xB''] [''0xB'', ''0xA'']),
      walletsToRun = [''0xA'']\<rparr>"
proof -
  have t: "tick shippedConfig 10 (loadWallets 0 [''0xA'', ''0xB''] [''0xB'', ''0xA''])
     = \<lparr>loader = loadWallets 0 [''0xA'', ''0xB''] [''0xB'', ''0xA''],
        walletsToRun = [''0xB'', ''0xA'']\<rparr>"
    by (simp add: registry_defs)
  have "reachable shippedConfig
      \<lparr>loader = loadWallets 0 [''0xA'', ''0xB''] [''0xB'', ''0xA''], walletsToRun = []\<rparr>"
    by (rule reachable.start) simp
  then have "reachable shippedConfig
      (tick shippedConfig 10 (loadWallets 0 [''0xA'', ''0xB''] [''0xB'', ''0xA'']))"
    using reachable.next_tick [of shippedConfig _ 10] by fastforce
  then have "reachable shippedConfig
      \<lparr>loader = loadWallets 0 [''0xA'', ''0xB''] [''0xB'', ''0xA''],
       walletsToRun = [''0xB'', ''0xA'']\<rparr>"
    by (simp add: t)
  from reachable.launch [OF this, of "''0xB''" "[''0xA'']" 20] show ?thesis by simp
qed

text \<open>
  C1. In every state the scheduler loop and its launched tasks can reach, under a ceiling
  that is not negative, the number of wallets whose state has \<open>isRunning\<close> is at most
  \<open>maxConcurrent\<close>. A tick, on any registry and under any ceiling, selects at most
  \<open>maxConcurrent\<close> minus the running count wallets to launch, none when that difference is
  zero or negative, and leaves the running count as it was.
\<close>

theorem running_never_exceeds_maxConcurrent:
  "(reachable cfg S \<and> 0 \<le> maxConcurrent (cfg_wallets cfg) \<longrightarrow>
      getRunningWalletsCount (loader S) \<le> maxConcurrent (cfg_wallets cfg))
   \<and> int (length (walletsToRun (tick cfg now L)))
       \<le> max 0 (maxConcurrent (cfg_wallets cfg) - getRunningWalletsCount L)
   \<and> (maxConcurrent (cfg_wallets cfg) - getRunningWalletsCount L \<le> 0 \<longrightarrow>
        walletsToRun (tick cfg now L) = [])
   \<and> getRunningWalletsCount (loader (tick cfg now L)) = getRunningWalletsCount L"
proof -
  have inv: "reachable cfg S \<and> 0 \<le> maxConcurrent (cfg_wallets cfg) \<longrightarrow>
      getRunningWalletsCount (loader S) \<le> maxConcurrent (cfg_wallets cfg)"
    using reachable_budget [of cfg S] by auto
  have t: "int (length (walletsToRun (tick cfg now L)))
       \<le> max 0 (maxConcurrent (cfg_wallets cfg) - getRunningWalletsCount L)
     \<and> getRunningWalletsCount (loader (tick cfg now L)) = getRunningWalletsCount L"
    by (rule tick_bound)
  have none: "maxConcurrent (cfg_wallets cfg) - getRunningWalletsCount L \<le> 0 \<longrightarrow>
        walletsToRun (tick cfg now L) = []"
    using t by auto
  show ?thesis using inv t none by blast
qed

text \<open>
  Witness for C1: under the shipped configuration (ceiling 3), two wallets are loaded, a
  tick selects both and the first is launched; one wallet is running. Under a ceiling of
  \<open>-1\<close> a tick on three loaded wallets, none of them running, selects no wallet.
\<close>

theorem running_never_exceeds_maxConcurrent_witness:
  "reachable shippedConfig
     \<lparr>loader = markWalletAsRunning 20 ''0xB''
                 (loadWallets 0 [''0xA'', ''0xB''] [''0xB'', ''0xA'']),
      walletsToRun = [''0xA'']\<rparr>
   \<and> getRunningWalletsCount
        (markWalletAsRunning 20 ''0xB'' (loadWallets 0 [''0xA'', ''0xB''] [''0xB'', ''0xA''])) = 1
   \<and> getRunningWalletsCount
        (markWalletAsRunning 20 ''0xB'' (loadWallets 0 [''0xA'', ''0xB''] [''0xB'', ''0xA'']))
        \<le> maxConcurrent (cfg_wallets shippedConfig)
   \<and> walletsToRun (tick (shippedConfig\<lparr>cfg_wallets :=
          (cfg_wallets shippedConfig)\<lparr>maxConcurrent := - 1\<rparr>\<rparr>) 10
        (loadWallets 0 [''0xA'', ''0xB'', ''0xC''] [''0xA'', ''0xB'', ''0xC''])) = []"
proof -
  let ?L = "markWalletAsRunning 20 ''0xB'' (loadWallets 0 [''0xA'', ''0xB''] [''0xB'', ''0xA''])"
  let ?S = "\<lparr>loader = ?L, walletsToRun = [''0xA'']\<rparr>"
  let ?neg = "shippedConfig\<lparr>cfg_wallets := (cfg_wallets shippedConfig)\<lparr>maxConcurrent := - 1\<rparr>\<rparr>"
  let ?L3 = "loadWallets 0 [''0xA'', ''0xB'', ''0xC''] [''0xA'', ''0xB'', ''0xC'']"
  have c: "getRunningWalletsCount ?L = 1"
    by (simp add: registry_defs)
  have m: "0 \<le> maxConcurrent (cfg_wallets shippedConfig)"
    by (simp add: shippedConfig_def)
  have d: "maxConcurrent (cfg_wallets ?neg) - getRunningWalletsCount ?L3 \<le> 0"
    by (simp add: loadWallets_count)
  have 1: "getRunningWalletsCount ?L \<le> maxConcurrent (cfg_wallets shippedConfig)"
    using running_never_exceeds_maxConcurrent [of shippedConfig ?S] example_run_reachable m by simp
  have 2: "walletsToRun (tick ?neg 10 ?L3) = []"
    using running_never_exceeds_maxConcurrent [of ?neg _ 10 ?L3] d by blast
  show ?thesis using example_run_reachable c 1 2 by blast
qed

section \<open>Registry operations\<close>

text \<open>
  C8 (amended). \<^verbatim>\<open>initializeWalletState\<close> overwrites: after a second call the stored
  state of the address is the state after the first call with \<open>nextRunTime\<close> replaced by
  the clock reading of the second call; the two calls leave the same registry when they
  read the same clock value.
\<close>

theorem initializeWalletState_twice:
  "map_of (walletStates (initializeWalletState t1 a L)) a = Some (initialState t1)
   \<and> map_of (walletStates (initializeWalletState t2 a (initializeWalletState t1 a L))) a
       = Some ((initialState t1)\<lparr>nextRunTime := t2\<rparr>)
   \<and> initializeWalletState t a (initializeWalletState t a L) = initializeWalletState t a L"
  by (simp add: initializeWalletState_def update_conv' initialState_def)

text \<open>
  Counterexample to C8 as stated: registering \<^verbatim>\<open>0xA\<close> at time 1000 and again at time 2000
  does not leave the state of the first call, whose \<open>nextRunTime\<close> was 1000.
\<close>

theorem initializeWalletState_not_idempotent:
  "initializeWalletState 2000 ''0xA''
     (initializeWalletState 1000 ''0xA'' \<lparr>wallets = [''0xA''], walletStates = []\<rparr>)
   \<noteq> initializeWalletState 1000 ''0xA'' \<lparr>wallets = [''0xA''], walletStates = []\<rparr>
   \<and> map_option nextRunTime (map_of (walletStates (initializeWalletState 2000 ''0xA''
        (initializeWalletState 1000 ''0xA'' \<lparr>wallets = [''0xA''], walletStates = []\<rparr>))) ''0xA'')
       = Some 2000"
  by (simp add: initializeWalletState_def initialState_def)

text \<open>
  C6 (amended). \<^verbatim>\<open>markWalletAsRunning\<close> has no failure path: on a wallet that is already
  running it returns normally and stores the old state with \<open>isRunning = true\<close>,
  \<open>lastRunTime = now\<close> and \<open>status = running\<close>, keeping every other field and the
  wallet list.
\<close>

theorem markWalletAsRunning_on_running:
  assumes "map_of (walletStates L) a = Some s" and "isRunning s"
  shows "map_of (walletStates (markWalletAsRunning now a L)) a
           = Some (s\<lparr>isRunning := True, lastRunTime := now, status := Running\<rparr>)
       \<and> wallets (markWalletAsRunning now a L) = wallets L"
  using assms
  by (simp add: markWalletAsRunning_def updateWalletState_lookup getWalletState_known)
     (simp add: updateWalletState_def getWalletState_known)

text \<open>
  Witness for C6: \<^verbatim>\<open>0xA\<close> is running since time 100; marking it running again at time
  500 stores \<open>lastRunTime = 500\<close>.
\<close>

theorem markWalletAsRunning_on_running_witness:
  "map_option isRunning (map_of (walletStates
       (markWalletAsRunning 100 ''0xA'' (loadWallets 0 [''0xA''] [''0xA'']))) ''0xA'') = Some True
   \<and> map_option lastRunTime (map_of (walletStates
       (markWalletAsRunning 500 ''0xA''
         (markWalletAsRunning 100 ''0xA'' (loadWallets 0 [''0xA''] [''0xA''])))) ''0xA'')
       = Some 500"
proof -
  let ?L = "markWalletAsRunning 100 ''0xA'' (loadWallets 0 [''0xA''] [''0xA''])"
  let ?s = "(initialState 0)\<lparr>isRunning := True, lastRunTime := 100, status := Running\<rparr>"
  have s: "map_of (walletStates ?L) ''0xA'' = Some ?s"
    by (simp add: registry_defs)
  have r: "isRunning ?s" by simp
  show ?thesis
    using markWalletAsRunning_on_running [OF s r, of 500] s by simp
qed

text \<open>
  Counterexample to C6 as stated: the second \<^verbatim>\<open>markWalletAsRunning\<close> on the running wallet
  \<^verbatim>\<open>0xA\<close> yields a registry, not an error, and that registry differs from the one before
  the call: \<open>lastRunTime\<close> went from 100 to 500.
\<close>

theorem markWalletAsRunning_overwrites_running:
  "map_option isRunning (map_of (walletStates
       (markWalletAsRunning 100 ''0xA'' (loadWallets 0 [''0xA''] [''0xA'']))) ''0xA'') = Some True
   \<and> map_option lastRunTime (map_of (walletStates
       (markWalletAsRunning 100 ''0xA'' (loadWallets 0 [''0xA''] [''0xA'']))) ''0xA'') = Some 100
   \<and> map_option lastRunTime (map_of (walletStates
       (markWalletAsRunning 500 ''0xA''
         (markWalletAsRunning 100 ''0xA'' (loadWallets 0 [''0xA''] [''0xA''])))) ''0xA'')
       = Some 500
   \<and> markWalletAsRunning 500 ''0xA''
         (markWalletAsRunning 100 ''0xA'' (loadWallets 0 [''0xA''] [''0xA'']))
       \<noteq> markWalletAsRunning 100 ''0xA'' (loadWallets 0 [''0xA''] [''0xA''])"
  by (simp add: registry_defs)

text \<open>
  C2 (amended). For every wallet address and every draw \<open>0 \<le> r < 1\<close>, when the call does
  not retire the wallet: after \<^verbatim>\<open>markWalletAsCompleted(a, true)\<close>, with
  \<open>betweenRounds.min \<le> betweenRounds.max\<close>, \<open>nextRunTime\<close> is \<open>now + d\<close> for a \<open>d\<close> between
  \<open>betweenRounds.min\<close> and \<open>betweenRounds.max\<close>; after \<^verbatim>\<open>markWalletAsCompleted(a, false)\<close> it
  is \<open>now + d\<close> for a \<open>d\<close> between 60000 and 120000, which are constants of the code. The
  failure window lies below the success window exactly in the configurations with
  \<open>120000 < betweenRounds.min\<close>.
\<close>

theorem markWalletAsCompleted_nextRunTime:
  assumes r: "0 \<le> r" "r < 1"
    and notret: "\<not> retires cfg
       (if success then transactionsCompleted (fst (getWalletState now a L)) + 1
        else transactionsCompleted (fst (getWalletState now a L)))"
    and rng: "success \<Longrightarrow>
       range_min (betweenRounds (cfg_delays cfg)) \<le> range_max (betweenRounds (cfg_delays cfg))"
  shows "\<exists>s' d. map_of (walletStates (markWalletAsCompleted cfg now r a success msg L)) a = Some s'
           \<and> nextRunTime s' = now + d
           \<and> (if success
                then range_min (betweenRounds (cfg_delays cfg)) \<le> d
                   \<and> d \<le> range_max (betweenRounds (cfg_delays cfg))
                else shortBackoffMin \<le> d \<and> d \<le> shortBackoffMax)
           \<and> shortBackoffMin = 60000 \<and> shortBackoffMax = 120000"
proof -
  obtain st L1 where g: "getWalletState now a L = (st, L1)"
    by (cases "getWalletState now a L")
  have g1: "getWalletState now a L1 = (st, L1)"
    using getWalletState_again [of now a L] g by simp
  have b: "shortBackoffMin \<le> shortBackoffMax"
    by (simp add: shortBackoffMin_def shortBackoffMax_def)
  show ?thesis
  proof (cases success)
    case True
    then show ?thesis
      using notret getRandomInRange_bounds [OF r rng]
      by (simp add: markWalletAsCompleted_def g g1 Let_def updateWalletState_lookup
          shortBackoffMin_def shortBackoffMax_def)
  next
    case False
    then show ?thesis
      using notret getRandomInRange_bounds [OF r b]
      by (simp add: markWalletAsCompleted_def g g1 Let_def updateWalletState_lookup)
         (simp add: shortBackoffMin_def shortBackoffMax_def)
  qed
qed

text \<open>
  Witness for C2: under the shipped configuration (rounds of 3600000 to 7200000 ms, no
  retirement) a success at time 5000 with the draw \<open>1/2\<close>.
\<close>

theorem markWalletAsCompleted_nextRunTime_witness:
  "\<exists>s' d. map_of (walletStates (markWalletAsCompleted shippedConfig 5000 (1/2) ''0xA'' True None
              (loadWallets 0 [''0xA''] [''0xA'']))) ''0xA'' = Some s'
      \<and> nextRunTime s' = 5000 + d \<and> 3600000 \<le> d \<and> d \<le> 7200000"
proof -
  have nr: "\<not> retires shippedConfig
      (if True
       then transactionsCompleted
              (fst (getWalletState 5000 ''0xA'' (loadWallets 0 [''0xA''] [''0xA'']))) + 1
       else transactionsCompleted
              (fst (getWalletState 5000 ''0xA'' (loadWallets 0 [''0xA''] [''0xA'']))))"
    by (simp add: retires_def shippedConfig_def)
  have rg: "range_min (betweenRounds (cfg_delays shippedConfig))
              \<le> range_max (betweenRounds (cfg_delays shippedConfig))"
    by (simp add: shippedConfig_def)
  have v: "range_min (betweenRounds (cfg_delays shippedConfig)) = 3600000"
    "range_max (betweenRounds (cfg_delays shippedConfig)) = 7200000"
    by (simp_all add: shippedConfig_def)
  show ?thesis
    using markWalletAsCompleted_nextRunTime [of "1/2", OF _ _ nr rg, of None] unfolding v
    by auto
qed

text \<open>
  Counterexample to C2 as stated. With \<open>betweenRounds = {min: 1000, max: 2000}\<close> the
  failure window's maximum, 120000, is not below the success window's minimum: a failure at
  time 5000 is eligible again at 65000, a success at 6500. And in finite-run mode with
  \<open>maxTransactions = 1\<close> a success sets \<open>nextRunTime\<close> to \<^verbatim>\<open>Number.MAX_SAFE_INTEGER\<close>, which
  is not in the success window.
\<close>

theorem markWalletAsCompleted_windows_unordered:
  "\<not> shortBackoffMax < range_min (betweenRounds (cfg_delays
        (shippedConfig\<lparr>cfg_delays := (cfg_delays shippedConfig)
           \<lparr>betweenRounds := \<lparr>range_min = 1000, range_max = 2000\<rparr>\<rparr>\<rparr>)))
   \<and> map_option nextRunTime (map_of (walletStates (markWalletAsCompleted
        (shippedConfig\<lparr>cfg_delays := (cfg_delays shippedConfig)
           \<lparr>betweenRounds := \<lparr>range_min = 1000, range_max = 2000\<rparr>\<rparr>\<rparr>)
        5000 0 ''0xA'' False (Some ''boom'') (loadWallets 0 [''0xA''] [''0xA'']))) ''0xA'')
       = Some (5000 + 60000)
   \<and> map_option nextRunTime (map_of (walletStates (markWalletAsCompleted
        (shippedConfig\<lparr>cfg_delays := (cfg_delays shippedConfig)
           \<lparr>betweenRounds := \<lparr>range_min = 1000, range_max = 2000\<rparr>\<rparr>\<rparr>)
        5000 (1/2) ''0xA'' True None (loadWallets 0 [''0xA''] [''0xA'']))) ''0xA'')
       = Some (5000 + 1500)
   \<and> map_option nextRunTime (map_of (walletStates (markWalletAsCompleted
        (shippedConfig\<lparr>cfg_wallets := (cfg_wallets shippedConfig)
           \<lparr>runForever := False, maxTransactions := Some 1\<rparr>\<rparr>)
        5000 (1/2) ''0xA'' True None (loadWallets 0 [''0xA''] [''0xA'']))) ''0xA'')
       = Some MAX_SAFE_INTEGER"
  by (simp add: registry_defs floor_rat_numeral_divide)

section \<open>The endpoint pool\<close>

lemmas rpc_defs = newRpcManager_def initializeProviders_def freshManager_def
  testProviderBegin_def testProviderEnd_def testProvider_def testAllProviders_def
  shippedConfig_def Let_def

lemma findIndex_Some:
  "findIndex P xs = Some i \<Longrightarrow> i < length xs \<and> P (xs ! i)"
proof (induction xs arbitrary: i)
  case Nil
  then show ?case by simp
next
  case (Cons x xs)
  then show ?case by (auto split: if_splits)
qed

lemma testAllProviders_resolved:
  assumes "testAllProviders cfg answers M = Inr M'"
  shows "currentProviderIndex M' < length (providers M')
       \<and> failCount (providers M' ! currentProviderIndex M') = 0"
  using assms
  by (auto simp: testAllProviders_def Let_def split: option.splits dest: findIndex_Some)

text \<open>
  C5 (amended). With a pool of three endpoints each having failure count 1, one further
  \<^verbatim>\<open>markCurrentProviderAsFailed\<close> raises the current endpoint's counter to 2 and then,
  every counter being positive, lowers each counter by one: the current endpoint keeps
  count 1 and the other two go to 0. The pointer then advances to the endpoint after the
  prior one, whose count is 0.
\<close>

theorem markCurrentProviderAsFailed_soft_reset:
  assumes "map failCount (providers M) = [1, 1, 1]" and "currentProviderIndex M < 3"
  shows "\<exists>M'. markCurrentProviderAsFailed message M = Inr M'
      \<and> map failCount (providers M') = [0, 0, 0][currentProviderIndex M := 1]
      \<and> currentProviderIndex M' = (currentProviderIndex M + 1) mod 3
      \<and> failCount (providers M' ! currentProviderIndex M') = 0"
proof -
  obtain p0 p1 p2 where ps: "providers M = [p0, p1, p2]"
    and f: "failCount p0 = 1" "failCount p1 = 1" "failCount p2 = 1"
    using assms(1) by (auto simp: map_eq_Cons_conv)
  consider "currentProviderIndex M = 0" | "currentProviderIndex M = 1"
    | "currentProviderIndex M = 2"
    using assms(2) by linarith
  then show ?thesis
  proof cases
    case 1
    then show ?thesis
      by (simp add: markCurrentProviderAsFailed_def switchToNextProvider_def
          switchLoop.simps Let_def ps f)
  next
    case 2
    then show ?thesis
      by (simp add: markCurrentProviderAsFailed_def switchToNextProvider_def
          switchLoop.simps Let_def ps f)
  next
    case 3
    then show ?thesis
      by (simp add: markCurrentProviderAsFailed_def switchToNextProvider_def
          switchLoop.simps Let_def ps f)
  qed
qed

text \<open>
  Witness for C5: three endpoints with one failure each, the pointer on the second; the
  counters become 0, 1, 0 and the pointer moves to the third.
\<close>

theorem markCurrentProviderAsFailed_soft_reset_witness:
  "\<exists>M'. markCurrentProviderAsFailed ''server error''
       \<lparr>providers = map (\<lambda>u. \<lparr>url = u, failCount = 1, provider_lastError = None,
                               lastUsed = 0, isCurrentlyTesting = False\<rparr>)
                        [''e1'', ''e2'', ''e3''],
        currentProviderIndex = 1\<rparr> = Inr M'
     \<and> map failCount (providers M') = [0, 1, 0]
     \<and> currentProviderIndex M' = 2"
  using markCurrentProviderAsFailed_soft_reset
    [of "\<lparr>providers = map (\<lambda>u. \<lparr>url = u, failCount = 1, provider_lastError = None,
                               lastUsed = 0, isCurrentlyTesting = False\<rparr>)
                        [''e1'', ''e2'', ''e3''],
         currentProviderIndex = 1\<rparr>" "''server error''"]
  by (auto simp: numeral_2_eq_2)

text \<open>
  Counterexample to C5 as stated: from counters 1, 1, 1 with the pointer on the first
  endpoint, the counters after the call are 1, 0, 0 and not 0, 0, 0.
\<close>

theorem markCurrentProviderAsFailed_not_full_reset:
  "map_sum id (\<lambda>M. (map failCount (providers M), currentProviderIndex M))
     (markCurrentProviderAsFailed ''server error''
       \<lparr>providers = map (\<lambda>u. \<lparr>url = u, failCount = 1, provider_lastError = None,
                               lastUsed = 0, isCurrentlyTesting = False\<rparr>)
                        [''e1'', ''e2'', ''e3''],
        currentProviderIndex = 0\<rparr>)
   = Inr ([1, 0, 0], 1)"
  by (simp add: markCurrentProviderAsFailed_def switchToNextProvider_def switchLoop.simps
      Let_def)

text \<open>
  C9 (the code at the failing input). With the shipped configuration, whose one endpoint
  does not answer the probe, \<^verbatim>\<open>new RpcManager(config)\<close> returns a manager, the endpoint
  still marked as being tested, while \<^verbatim>\<open>testAllProviders\<close> on the fresh pool rejects with
  the all-providers-unavailable error: the rejection is of a promise the constructor
  dropped, so the construction does not raise.
\<close>

theorem newRpcManager_ignores_failed_probe:
  "newRpcManager shippedConfig
     = Inr \<lparr>providers = [\<lparr>url = ''https://sepolia.base.org'', failCount = 0,
                provider_lastError = None, lastUsed = 0, isCurrentlyTesting = True\<rparr>],
            currentProviderIndex = 0\<rparr>
   \<and> testAllProviders shippedConfig
        (\<lambda>u. \<lparr>getNetwork = Inl ''could not detect network'',
               getBlockNumber = Inl ''could not detect network''\<rparr>)
        (freshManager shippedConfig)
     = Inl allProvidersUnavailableMessage"
  by (simp add: rpc_defs)

section \<open>The resilient call wrapper\<close>

lemma timeoutMessage_not_transport: "\<not> isTransportError timeoutMessage"
  by (simp add: isTransportError_def timeoutMessage_def startsWith_def)

lemma reverted_not_transport: "\<not> isTransportError ''execution reverted''"
  by (simp add: isTransportError_def startsWith_def)

lemma caught_not_transport:
  assumes "\<And>n M' m. action n M' = Thrown m \<Longrightarrow> \<not> isTransportError m"
    and "action n M \<noteq> Returned v"
  shows "\<not> isTransportError (caughtMessage (action n M))"
  using assms timeoutMessage_not_transport
  by (cases "action n M") (auto simp: caughtMessage_def)

lemma withProviderLoop_keeps_pool:
  assumes nt: "\<And>n M' m. action n M' = Thrown m \<Longrightarrow> \<not> isTransportError m"
  shows "fst (snd (withProviderLoop action mx d k le M)) = M
       \<and> (\<forall>m. MarkedFailed m \<notin> set (snd (snd (withProviderLoop action mx d k le M))))"
proof (induction "nat (mx + 1 - int k)" arbitrary: k le)
  case 0
  then have "\<not> int k \<le> mx" by simp
  then show ?case by (simp add: withProviderLoop.simps [of action mx d k le M])
next
  case (Suc j)
  then have le: "int k \<le> mx" by simp
  have j: "j = nat (mx + 1 - int (k + 1))" using Suc.hyps(2) by simp
  show ?case
  proof (cases "action k M")
    case (Returned v)
    then show ?thesis using le by (simp add: withProviderLoop.simps [of action mx d k le M])
  next
    case (Thrown m)
    have n: "\<not> isTransportError m" using nt Thrown by blast
    show ?thesis
      using Suc.hyps(1) [OF j, of "Some m"] le Thrown n
      by (simp add: withProviderLoop.simps [of action mx d k le M] caughtMessage_def
          case_prod_beta Let_def)
  next
    case TimedOut
    show ?thesis
      using Suc.hyps(1) [OF j, of "Some timeoutMessage"] le TimedOut
        timeoutMessage_not_transport
      by (simp add: withProviderLoop.simps [of action mx d k le M] caughtMessage_def
          case_prod_beta Let_def)
  qed
qed

lemma withProviderLoop_failed_step:
  assumes "\<not> isTransportError (caughtMessage (action k M))"
    and "\<And>v. action k M \<noteq> Returned v"
    and "int k \<le> mx"
  shows "withProviderLoop action mx d k le M
     = (let (r, M'', events) =
              withProviderLoop action mx d (k + 1) (Some (caughtMessage (action k M))) M
        in (r, M'', Invoked k # (if int (k + 1) \<le> mx then [Slept d] else []) @ events))"
proof (cases "action k M")
  case (Returned v)
  then show ?thesis using assms(2) by blast
next
  case (Thrown m)
  then show ?thesis
    using assms by (simp add: withProviderLoop.simps [of action mx d k le M] Let_def)
next
  case TimedOut
  then show ?thesis
    using assms by (simp add: withProviderLoop.simps [of action mx d k le M] Let_def)
qed

lemma withProviderLoop_all_fail:
  assumes nt: "\<And>n M' m. action n M' = Thrown m \<Longrightarrow> \<not> isTransportError m"
    and fails: "\<And>n v. action n M \<noteq> Returned v"
    and le: "int k \<le> mx"
  shows "withProviderLoop action mx d k le M
     = (Inl (caughtMessage (action (nat mx) M)), M,
        concat (map (\<lambda>n. Invoked n # (if int n < mx then [Slept d] else []))
                  [k ..< nat mx + 1]))"
  using le
proof (induction "nat mx - k" arbitrary: k le)
  case 0
  then have k: "k = nat mx" "int k = mx" by simp_all
  have c: "\<not> isTransportError (caughtMessage (action k M))"
    using caught_not_transport [of action k M] nt fails by blast
  have stop: "withProviderLoop action mx d (k + 1) (Some (caughtMessage (action k M))) M
      = (Inl (caughtMessage (action k M)), M, [])"
    by (subst withProviderLoop.simps) (use k in simp)
  have u: "[k ..< nat mx + 1] = [k]" using k by simp
  have f: "\<And>v. action k M \<noteq> Returned v" using fails by blast
  show ?case
    unfolding withProviderLoop_failed_step
      [where action = action and k = k and M = M and mx = mx and d = d and le = le,
       OF c f "0.prems"] stop u
    using k by simp
next
  case (Suc j)
  then have lt: "int k < mx" and j: "j = nat mx - (k + 1)" and le': "int (k + 1) \<le> mx"
    and kn: "Suc k \<le> nat mx"
    by linarith+
  have c: "\<not> isTransportError (caughtMessage (action k M))"
    using caught_not_transport [of action k M] nt fails by blast
  have u: "[k ..< nat mx + 1] = k # [k + 1 ..< nat mx + 1]"
    using kn by (simp add: upt_conv_Cons)
  have f: "\<And>v. action k M \<noteq> Returned v" using fails by blast
  show ?case
    unfolding withProviderLoop_failed_step
      [where action = action and k = k and M = M and mx = mx and d = d and le = le,
       OF c f Suc.prems]
      Suc.hyps(1) [OF j le'] u
    using lt le' kn by simp
qed

lemma withProviderLoop_marks_transport:
  "MarkedFailed m \<in> set (snd (snd (withProviderLoop action mx d k le M))) \<Longrightarrow> isTransportError m"
proof (induction "nat (mx + 1 - int k)" arbitrary: k le M)
  case 0
  then have "\<not> int k \<le> mx" by simp
  then show ?case using "0.prems" by (simp add: withProviderLoop.simps [of action mx d k le M])
next
  case (Suc j)
  then have le: "int k \<le> mx" by simp
  have j: "j = nat (mx + 1 - int (k + 1))" using Suc.hyps(2) by simp
  show ?case
  proof (cases "action k M")
    case (Returned v)
    then show ?thesis
      using le Suc.prems by (simp add: withProviderLoop.simps [of action mx d k le M])
  next
    case failed: (Thrown e)
    show ?thesis
    proof (cases "isTransportError e")
      case True
      show ?thesis
      proof (cases "markCurrentProviderAsFailed e M")
        case (Inl t)
        then show ?thesis
          using le failed True Suc.prems
          by (simp add: withProviderLoop.simps [of action mx d k le M] caughtMessage_def Let_def)
      next
        case (Inr M')
        then show ?thesis
          using le failed True Suc.prems Suc.hyps(1) [OF j, of "Some e" M']
          by (auto simp: withProviderLoop.simps [of action mx d k le M] caughtMessage_def
              Let_def case_prod_beta split: if_splits)
      qed
    next
      case False
      then show ?thesis
        using le failed Suc.prems Suc.hyps(1) [OF j, of "Some e" M]
        by (auto simp: withProviderLoop.simps [of action mx d k le M] caughtMessage_def
            Let_def case_prod_beta split: if_splits)
    qed
  next
    case TimedOut
    then show ?thesis
      using le Suc.prems Suc.hyps(1) [OF j, of "Some timeoutMessage" M]
        timeoutMessage_not_transport
      by (auto simp: withProviderLoop.simps [of action mx d k le M] caughtMessage_def
          Let_def case_prod_beta split: if_splits)
  qed
qed

lemma withProviderLoop_last_attempt:
  assumes "\<not> isTransportError (caughtMessage (action k P))"
    and "\<And>v. action k P \<noteq> Returned v"
    and "int k = mx"
  shows "withProviderLoop action mx d k le P = (Inl (caughtMessage (action k P)), P, [Invoked k])"
proof -
  have s: "withProviderLoop action mx d (k + 1) (Some (caughtMessage (action k P))) P
      = (Inl (caughtMessage (action k P)), P, [])"
    by (subst withProviderLoop.simps) (use assms(3) in simp)
  have le: "int k \<le> mx" using assms(3) by simp
  show ?thesis
    unfolding withProviderLoop_failed_step
      [where action = action and k = k and M = P and mx = mx and d = d and le = le,
       OF assms(1) assms(2) le] s
    using assms(3) by simp
qed

text \<open>
  C4 (amended). \<^verbatim>\<open>withProvider\<close> calls \<^verbatim>\<open>markCurrentProviderAsFailed\<close> only with errors of
  the transport class (a message that contains \<^verbatim>\<open>timeout\<close>, \<^verbatim>\<open>server error\<close>,
  \<^verbatim>\<open>network error\<close> or \<^verbatim>\<open>connection refused\<close>), whatever the action does; an attempt that
  fails with an error outside that class causes no failover, and when every thrown error
  is outside it the pool the wrapper leaves is the pool it was given. Such an error is not
  propagated at once: the failed attempt consumes one retry; while retries remain the
  wrapper sleeps \<open>retryDelay\<close> and invokes the action again on the same pool, whatever the
  later attempts do, and only the last permitted attempt throws its error. When every
  attempt fails the action has been invoked \<open>maxRetries + 1\<close> times, with \<open>maxRetries\<close>
  sleeps, before the last error is thrown.
\<close>

theorem withProvider_non_transport_retries:
  "(\<forall>m. MarkedFailed m \<in> set (snd (snd (withProvider cfg action options M)))
        \<longrightarrow> isTransportError m)
   \<and> ((\<forall>v. action k P \<noteq> Returned v) \<and> \<not> isTransportError (caughtMessage (action k P))
        \<and> int k \<le> mx \<longrightarrow>
        withProviderLoop action mx d k le P
          = (let (r, P', events) =
                   withProviderLoop action mx d (k + 1) (Some (caughtMessage (action k P))) P
             in (r, P', Invoked k # (if int (k + 1) \<le> mx then [Slept d] else []) @ events))
        \<and> (int k = mx \<longrightarrow>
             withProviderLoop action mx d k le P
               = (Inl (caughtMessage (action k P)), P, [Invoked k])))
   \<and> ((\<forall>v. action 0 M \<noteq> Returned v) \<and> \<not> isTransportError (caughtMessage (action 0 M))
        \<and> 0 < effectiveMaxRetries cfg options \<longrightarrow>
        withProvider cfg action options M
          = (let (r, P', events) =
                   withProviderLoop action (effectiveMaxRetries cfg options)
                     (effectiveRetryDelay cfg options) 1 (Some (caughtMessage (action 0 M))) M
             in (r, P', Invoked 0 # Slept (effectiveRetryDelay cfg options) # events)))
   \<and> ((\<forall>n P' m. action n P' = Thrown m \<longrightarrow> \<not> isTransportError m) \<longrightarrow>
        fst (snd (withProvider cfg action options M)) = M)
   \<and> ((\<forall>n P' m. action n P' = Thrown m \<longrightarrow> \<not> isTransportError m)
        \<and> (\<forall>n v. action n M \<noteq> Returned v) \<and> 0 \<le> effectiveMaxRetries cfg options \<longrightarrow>
          withProvider cfg action options M
            = (Inl (caughtMessage (action (nat (effectiveMaxRetries cfg options)) M)), M,
               concat (map (\<lambda>n. Invoked n #
                              (if int n < effectiveMaxRetries cfg options
                               then [Slept (effectiveRetryDelay cfg options)] else []))
                        [0 ..< nat (effectiveMaxRetries cfg options) + 1])))"
proof -
  let ?mx = "effectiveMaxRetries cfg options" and ?d = "effectiveRetryDelay cfg options"
  have 1: "\<forall>m. MarkedFailed m \<in> set (snd (snd (withProvider cfg action options M)))
        \<longrightarrow> isTransportError m"
    unfolding withProvider_def using withProviderLoop_marks_transport by blast
  have 2: "(\<forall>v. action k P \<noteq> Returned v) \<and> \<not> isTransportError (caughtMessage (action k P))
        \<and> int k \<le> mx \<longrightarrow>
        withProviderLoop action mx d k le P
          = (let (r, P', events) =
                   withProviderLoop action mx d (k + 1) (Some (caughtMessage (action k P))) P
             in (r, P', Invoked k # (if int (k + 1) \<le> mx then [Slept d] else []) @ events))
        \<and> (int k = mx \<longrightarrow>
             withProviderLoop action mx d k le P
               = (Inl (caughtMessage (action k P)), P, [Invoked k]))"
    using withProviderLoop_failed_step
        [where action = action and k = k and M = P and mx = mx and d = d and le = le]
      withProviderLoop_last_attempt
        [where action = action and k = k and P = P and mx = mx and d = d and le = le]
    by blast
  have 3: "(\<forall>v. action 0 M \<noteq> Returned v) \<and> \<not> isTransportError (caughtMessage (action 0 M))
        \<and> 0 < ?mx \<longrightarrow>
        withProvider cfg action options M
          = (let (r, P', events) =
                   withProviderLoop action ?mx ?d 1 (Some (caughtMessage (action 0 M))) M
             in (r, P', Invoked 0 # Slept ?d # events))"
  proof
    assume a: "(\<forall>v. action 0 M \<noteq> Returned v) \<and> \<not> isTransportError (caughtMessage (action 0 M))
        \<and> 0 < ?mx"
    then have le: "int 0 \<le> ?mx" by simp
    have f: "\<And>v. action 0 M \<noteq> Returned v" using a by blast
    have n: "\<not> isTransportError (caughtMessage (action 0 M))" using a by blast
    show "withProvider cfg action options M
          = (let (r, P', events) =
                   withProviderLoop action ?mx ?d 1 (Some (caughtMessage (action 0 M))) M
             in (r, P', Invoked 0 # Slept ?d # events))"
      unfolding withProvider_def
        withProviderLoop_failed_step
          [where action = action and k = 0 and M = M and mx = ?mx and d = ?d and le = None,
           OF n f le]
      using a by simp
  qed
  have 4: "(\<forall>n P' m. action n P' = Thrown m \<longrightarrow> \<not> isTransportError m) \<longrightarrow>
        fst (snd (withProvider cfg action options M)) = M"
    unfolding withProvider_def
    using withProviderLoop_keeps_pool [of action ?mx ?d 0 None M] by blast
  have 5: "(\<forall>n P' m. action n P' = Thrown m \<longrightarrow> \<not> isTransportError m)
        \<and> (\<forall>n v. action n M \<noteq> Returned v) \<and> 0 \<le> ?mx \<longrightarrow>
          withProvider cfg action options M
            = (Inl (caughtMessage (action (nat ?mx) M)), M,
               concat (map (\<lambda>n. Invoked n # (if int n < ?mx then [Slept ?d] else []))
                        [0 ..< nat ?mx + 1]))"
    unfolding withProvider_def
    using withProviderLoop_all_fail [of action M 0 ?mx ?d None] by auto
  show ?thesis using 1 2 3 4 5 by blast
qed

text \<open>
  Witness for C4, under the shipped configuration (5 retries, 2000 ms): an action that
  always throws \<^verbatim>\<open>execution reverted\<close> is invoked six times with five sleeps, then the
  error is thrown; an action that throws it once and then returns 7 is invoked twice with
  one sleep in between, and 7 is returned.
\<close>

theorem withProvider_non_transport_retries_witness:
  "withProvider shippedConfig (\<lambda>n M. (Thrown ''execution reverted'' :: int attempt)) noOptions
     (freshManager shippedConfig)
   = (Inl ''execution reverted'', freshManager shippedConfig,
      [Invoked 0, Slept 2000, Invoked 1, Slept 2000, Invoked 2, Slept 2000, Invoked 3,
       Slept 2000, Invoked 4, Slept 2000, Invoked 5])
   \<and> withProvider shippedConfig
       (\<lambda>n M. if n = 0 then Thrown ''execution reverted'' else Returned (7 :: int)) noOptions
       (freshManager shippedConfig)
   = (Inr 7, freshManager shippedConfig, [Invoked 0, Slept 2000, Invoked 1])"
proof -
  let ?a = "\<lambda>(n :: nat) (M :: rpcManager). (Thrown ''execution reverted'' :: int attempt)"
  let ?b = "\<lambda>(n :: nat) (M :: rpcManager).
              if n = 0 then Thrown ''execution reverted'' else Returned (7 :: int)"
  let ?M = "freshManager shippedConfig"
  have mx: "effectiveMaxRetries shippedConfig noOptions = 5"
    and d: "effectiveRetryDelay shippedConfig noOptions = 2000"
    by (simp_all add: effectiveMaxRetries_def effectiveRetryDelay_def noOptions_def
        shippedConfig_def)
  have u: "[0 ..< 6] = [0, 1, 2, 3, 4, 5::nat]"
    by (simp add: upt_rec)
  have ha: "(\<forall>n P' m. ?a n P' = Thrown m \<longrightarrow> \<not> isTransportError m)
      \<and> (\<forall>n v. ?a n ?M \<noteq> Returned v) \<and> 0 \<le> effectiveMaxRetries shippedConfig noOptions"
    using reverted_not_transport mx by simp
  have hb: "(\<forall>v. ?b 0 ?M \<noteq> Returned v) \<and> \<not> isTransportError (caughtMessage (?b 0 ?M))
      \<and> 0 < effectiveMaxRetries shippedConfig noOptions"
    using reverted_not_transport mx by (simp add: caughtMessage_def)
  have nxt: "withProviderLoop ?b 5 2000 1 (Some (caughtMessage (?b 0 ?M))) ?M
      = (Inr 7, ?M, [Invoked 1])"
    by (subst withProviderLoop.simps) simp
  note Ta = withProvider_non_transport_retries [where cfg = shippedConfig and action = ?a and options = noOptions and M = ?M
      and k = 0 and P = ?M and mx = 5 and d = 2000 and le = None]
  note Tb = withProvider_non_transport_retries [where cfg = shippedConfig and action = ?b and options = noOptions and M = ?M
      and k = 0 and P = ?M and mx = 5 and d = 2000 and le = None]
  have "withProvider shippedConfig ?a noOptions ?M
      = (Inl (caughtMessage (?a (nat (effectiveMaxRetries shippedConfig noOptions)) ?M)), ?M,
         concat (map (\<lambda>n. Invoked n #
                        (if int n < effectiveMaxRetries shippedConfig noOptions
                         then [Slept (effectiveRetryDelay shippedConfig noOptions)] else []))
                  [0 ..< nat (effectiveMaxRetries shippedConfig noOptions) + 1]))"
    using Ta ha by blast
  then have 1: "withProvider shippedConfig ?a noOptions ?M
     = (Inl ''execution reverted'', ?M,
        [Invoked 0, Slept 2000, Invoked 1, Slept 2000, Invoked 2, Slept 2000, Invoked 3,
         Slept 2000, Invoked 4, Slept 2000, Invoked 5])"
    unfolding mx d by (simp add: u caughtMessage_def)
  have "withProvider shippedConfig ?b noOptions ?M
      = (let (r, P', events) =
               withProviderLoop ?b (effectiveMaxRetries shippedConfig noOptions)
                 (effectiveRetryDelay shippedConfig noOptions) 1
                 (Some (caughtMessage (?b 0 ?M))) ?M
         in (r, P', Invoked 0 # Slept (effectiveRetryDelay shippedConfig noOptions) # events))"
    using Tb hb by blast
  then have 2: "withProvider shippedConfig ?b noOptions ?M
      = (Inr 7, ?M, [Invoked 0, Slept 2000, Invoked 1])"
    unfolding mx d nxt by simp
  show ?thesis using 1 2 by blast
qed

text \<open>
  Counterexample to C4 as stated: with \<open>maxRetries = 2\<close> an action that always throws the
  non-transport error \<^verbatim>\<open>execution reverted\<close> is invoked three times with two sleeps of
  the retry delay in between; the error is not propagated after the first invocation.
\<close>

theorem withProvider_non_transport_not_immediate:
  "withProvider shippedConfig (\<lambda>n M. (Thrown ''execution reverted'' :: int attempt))
     \<lparr>opt_maxRetries = Some 2, opt_retryDelay = None, opt_timeoutMs = None\<rparr>
     (freshManager shippedConfig)
   = (Inl ''execution reverted'', freshManager shippedConfig,
      [Invoked 0, Slept 2000, Invoked 1, Slept 2000, Invoked 2])"
  by (simp add: withProvider_def withProviderLoop.simps reverted_not_transport
      effectiveMaxRetries_def effectiveRetryDelay_def shippedConfig_def Let_def
      caughtMessage_def)

section \<open>Fee escalation\<close>

lemmas double_defs = escalatedFee_def toFixed6_def toDouble_def roundHalfEven_def pow2_def
  binaryExponent.simps effectiveMultiplier_def floor_rat_numeral_divide Let_def









text \<open>
  The rounding is that of the double product: \<^verbatim>\<open>(parseFloat("0.000015") * 1.3).toFixed(6)\<close>
  is \<^verbatim>\<open>0.000019\<close>, the double product lying just below the exact one, 0.0000195.
\<close>

lemma escalatedFee_rounds_double_product:
  "escalatedFee (15 / 1000000) (toDouble (13 / 10)) = 19 / 1000000
   \<and> toFixed6 ((15 / 1000000) * (13 / 10)) = 20 / 1000000"
  by (simp add: double_defs)




section \<open>The task executor\<close>

text \<open>
  C7 (the code at the failing input). With every remote call succeeding and balances above
  the thresholds, the sequence PRIOR to USDC, USDC to PRIOR, PRIOR to USDC runs with one
  delay only: the step at position 2 follows the step at position 1 with no delay, since
  \<^verbatim>\<open>txSequence.indexOf(txType)\<close> is 0 for every step that equals the first one.
\<close>

theorem executeTransactionSequence_skips_delay_of_repeated_step:
  "executeTransactionSequence shippedConfig
     \<lparr>minEthBalance = 1000000000000000, minPriorBalance = 100000000000000000,
      minUsdcBalance = 100000\<rparr>
     \<lparr>readEthBalance = (\<lambda>w. Inr 1000000000000000000),
      readTokenBalances = (\<lambda>w. Inr (1000000000000000000, 1000000000)),
      readAllowance = (\<lambda>t w. Inr True), requestFaucet = (\<lambda>w. Inr w),
      approveToken = (\<lambda>t w. Inr w), executeSwap = (\<lambda>s w. Inr w)\<rparr>
     (\<lambda>k. 0) [SWAP_PRIOR_TO_USDC, SWAP_USDC_TO_PRIOR, SWAP_PRIOR_TO_USDC] ()
   = (True, [Step SWAP_PRIOR_TO_USDC, Delay 5000, Step SWAP_USDC_TO_PRIOR,
             Step SWAP_PRIOR_TO_USDC])"
  by (simp add: executeTransactionSequence_def stepBody_def shippedConfig_def
      getRandomInRange_def)

section \<open>Transaction sequences\<close>

lemma floor_unit_draw:
  fixes r :: rat
  assumes "0 \<le> r" "r < 1"
  shows "\<lfloor>r\<rfloor> = 0" and "\<lfloor>r * 2\<rfloor> = 0 \<or> \<lfloor>r * 2\<rfloor> = 1"
proof -
  show "\<lfloor>r\<rfloor> = 0" using assms by (simp add: floor_eq_iff)
  have "0 \<le> r * 2" using assms by simp
  then have lo: "0 \<le> \<lfloor>r * 2\<rfloor>" by (simp only: zero_le_floor)
  have "r * 2 < 2" using assms by simp
  then have hi: "\<lfloor>r * 2\<rfloor> < 2" by (simp only: floor_less_iff of_int_numeral)
  show "\<lfloor>r * 2\<rfloor> = 0 \<or> \<lfloor>r * 2\<rfloor> = 1" using lo hi by linarith
qed

lemma generateLoop_unfold:
  assumes "int (length sequence) < c"
  shows "generateLoop rnd c k sequence =
     generateLoop rnd c (k + 1) (sequence @
       [let lastType = (if sequence = [] then None else last sequence);
            availableTypes = filter (\<lambda>type. Some type \<noteq> lastType) transactionTypes;
            index = \<lfloor>rnd k * of_int (int (length availableTypes))\<rfloor>
        in if 0 \<le> index \<and> index < int (length availableTypes)
           then Some (availableTypes ! nat index) else None])"
  using assms by (simp add: generateLoop.simps [of rnd c k sequence] Let_def)

text \<open>One pass of the loop appends a swap kind that differs from the last element.\<close>

lemma generateLoop_step:
  assumes r: "0 \<le> rnd k" "rnd k < 1"
    and s: "set sequence \<subseteq> {Some SWAP_PRIOR_TO_USDC, Some SWAP_USDC_TO_PRIOR}"
    and lt: "int (length sequence) < c"
  shows "\<exists>x. generateLoop rnd c k sequence = generateLoop rnd c (k + 1) (sequence @ [x])
           \<and> x \<in> {Some SWAP_PRIOR_TO_USDC, Some SWAP_USDC_TO_PRIOR}
           \<and> (sequence \<noteq> [] \<longrightarrow> last sequence \<noteq> x)"
proof -
  let ?x = "let lastType = (if sequence = [] then None else last sequence);
            availableTypes = filter (\<lambda>type. Some type \<noteq> lastType) transactionTypes;
            index = \<lfloor>rnd k * of_int (int (length availableTypes))\<rfloor>
        in if 0 \<le> index \<and> index < int (length availableTypes)
           then Some (availableTypes ! nat index) else None"
  have u: "generateLoop rnd c k sequence = generateLoop rnd c (k + 1) (sequence @ [?x])"
    by (rule generateLoop_unfold [OF lt])
  have p: "?x \<in> {Some SWAP_PRIOR_TO_USDC, Some SWAP_USDC_TO_PRIOR}
      \<and> (sequence \<noteq> [] \<longrightarrow> last sequence \<noteq> ?x)"
  proof (cases "sequence = []")
    case True
    show ?thesis
      using floor_unit_draw(2) [OF r] True r
      by (auto simp: transactionTypes_def Let_def)
  next
    case False
    then have "last sequence \<in> {Some SWAP_PRIOR_TO_USDC, Some SWAP_USDC_TO_PRIOR}"
      using s last_in_set by blast
    then consider "last sequence = Some SWAP_PRIOR_TO_USDC"
      | "last sequence = Some SWAP_USDC_TO_PRIOR"
      by blast
    then show ?thesis
    proof cases
      case 1
      then show ?thesis
        using False floor_unit_draw(1) [OF r] r by (simp add: transactionTypes_def Let_def)
    next
      case 2
      then show ?thesis
        using False floor_unit_draw(1) [OF r] r by (simp add: transactionTypes_def Let_def)
    qed
  qed
  show ?thesis using u p by blast
qed

lemma generateLoop_invariant:
  assumes rnd: "\<And>k. 0 \<le> rnd k \<and> rnd k < 1"
    and s: "set sequence \<subseteq> {Some SWAP_PRIOR_TO_USDC, Some SWAP_USDC_TO_PRIOR}"
    and d: "distinct_adj sequence"
  shows "set (generateLoop rnd c k sequence)
           \<subseteq> {Some SWAP_PRIOR_TO_USDC, Some SWAP_USDC_TO_PRIOR}
       \<and> distinct_adj (generateLoop rnd c k sequence)
       \<and> take (length sequence) (generateLoop rnd c k sequence) = sequence
       \<and> c \<le> int (length (generateLoop rnd c k sequence))
       \<and> length sequence \<le> length (generateLoop rnd c k sequence)"
  using s d
proof (induction "nat (c - int (length sequence))" arbitrary: k sequence)
  case 0
  then have "\<not> int (length sequence) < c" by simp
  then show ?case using 0 by (simp add: generateLoop.simps [of rnd c k sequence])
next
  case (Suc n)
  then have lt: "int (length sequence) < c" by simp
  obtain x where x: "generateLoop rnd c k sequence = generateLoop rnd c (k + 1) (sequence @ [x])"
    "x \<in> {Some SWAP_PRIOR_TO_USDC, Some SWAP_USDC_TO_PRIOR}"
    "sequence \<noteq> [] \<longrightarrow> last sequence \<noteq> x"
    using generateLoop_step [of rnd k sequence c] rnd Suc.prems(1) lt by blast
  let ?next = "generateLoop rnd c (k + 1) (sequence @ [x])"
  have n: "n = nat (c - int (length (sequence @ [x])))" using Suc.hyps(2) by simp
  have s': "set (sequence @ [x]) \<subseteq> {Some SWAP_PRIOR_TO_USDC, Some SWAP_USDC_TO_PRIOR}"
    using Suc.prems(1) x(2) by auto
  have d': "distinct_adj (sequence @ [x])"
    using Suc.prems(2) x(3) by (auto simp: distinct_adj_append_iff)
  have IH: "set ?next \<subseteq> {Some SWAP_PRIOR_TO_USDC, Some SWAP_USDC_TO_PRIOR}
       \<and> distinct_adj ?next
       \<and> take (length (sequence @ [x])) ?next = sequence @ [x]
       \<and> c \<le> int (length ?next)
       \<and> length (sequence @ [x]) \<le> length ?next"
    using Suc.hyps(1) [OF n s' d'] .
  have tk: "take (length sequence) ?next = sequence"
  proof -
    have "take (length sequence) (take (length (sequence @ [x])) ?next)
        = take (length sequence) (sequence @ [x])"
      using IH by simp
    then show ?thesis by (simp add: min_def)
  qed
  show ?case unfolding x(1) using IH tk by simp
qed

lemma getRandomInRange_lower:
  assumes "0 \<le> r" "r < 1"
  shows "min mn (mx + 1) \<le> getRandomInRange mn mx r"
proof (cases "mn \<le> mx")
  case True
  have "0 \<le> r * of_int (mx - mn + 1)" using assms True by simp
  then have "0 \<le> \<lfloor>r * of_int (mx - mn + 1)\<rfloor>" by simp
  then show ?thesis unfolding getRandomInRange_def by linarith
next
  case False
  let ?n = "mx - mn + 1"
  have n: "?n \<le> 0" using False by simp
  have a: "0 \<le> 1 - r" using assms by simp
  have b: "(of_int ?n :: rat) \<le> 0" using n by (simp only: of_int_le_0_iff)
  have "(1 - r) * of_int ?n \<le> 0" using mult_nonneg_nonpos [OF a b] .
  then have "of_int ?n \<le> r * of_int ?n" by (simp add: algebra_simps)
  then have "?n \<le> \<lfloor>r * of_int ?n\<rfloor>" by (simp only: le_floor_iff)
  then show ?thesis unfolding getRandomInRange_def by linarith
qed

text \<open>
  C10 (amended). For every configuration with \<open>minTransactionsPerWallet \<ge> 1\<close> in which
  \<open>maxTransactionsPerWallet\<close> is not negative or \<open>alwaysStartWithPriorToUsdc\<close> is set, and
  all draws of \<^verbatim>\<open>Math.random()\<close> in \<open>[0, 1)\<close>, \<^verbatim>\<open>generateTransactionSequence\<close> returns a
  non-empty sequence of the two swap kinds in which no two consecutive elements are equal,
  and whose first element is \<^verbatim>\<open>SWAP_PRIOR_TO_USDC\<close> when \<open>alwaysStartWithPriorToUsdc\<close> is
  set.
\<close>

theorem generateTransactionSequence_alternates:
  assumes rnd: "\<And>k. 0 \<le> rnd k \<and> rnd k < 1"
    and mn: "1 \<le> minTransactionsPerWallet (cfg_transactions cfg)"
    and mx: "0 \<le> maxTransactionsPerWallet (cfg_transactions cfg)
             \<or> alwaysStartWithPriorToUsdc (patterns (cfg_transactions cfg))"
  shows "generateTransactionSequence cfg rnd \<noteq> []
     \<and> set (generateTransactionSequence cfg rnd)
         \<subseteq> {Some SWAP_PRIOR_TO_USDC, Some SWAP_USDC_TO_PRIOR}
     \<and> distinct_adj (generateTransactionSequence cfg rnd)
     \<and> (alwaysStartWithPriorToUsdc (patterns (cfg_transactions cfg)) \<longrightarrow>
          hd (generateTransactionSequence cfg rnd) = Some SWAP_PRIOR_TO_USDC)"
proof -
  let ?c = "getRandomInRange (minTransactionsPerWallet (cfg_transactions cfg))
              (maxTransactionsPerWallet (cfg_transactions cfg)) (rnd 0)"
  let ?s = "if alwaysStartWithPriorToUsdc (patterns (cfg_transactions cfg))
            then [Some SWAP_PRIOR_TO_USDC] else []"
  have g: "generateTransactionSequence cfg rnd = generateLoop rnd ?c 1 ?s"
    by (simp add: generateTransactionSequence_def Let_def)
  have inv: "set (generateLoop rnd ?c 1 ?s)
           \<subseteq> {Some SWAP_PRIOR_TO_USDC, Some SWAP_USDC_TO_PRIOR}
       \<and> distinct_adj (generateLoop rnd ?c 1 ?s)
       \<and> take (length ?s) (generateLoop rnd ?c 1 ?s) = ?s
       \<and> ?c \<le> int (length (generateLoop rnd ?c 1 ?s))
       \<and> length ?s \<le> length (generateLoop rnd ?c 1 ?s)"
    by (rule generateLoop_invariant [OF rnd]) auto
  have ne: "generateLoop rnd ?c 1 ?s \<noteq> []"
  proof (cases "alwaysStartWithPriorToUsdc (patterns (cfg_transactions cfg))")
    case True
    then show ?thesis using inv by auto
  next
    case False
    then have "0 \<le> maxTransactionsPerWallet (cfg_transactions cfg)" using mx by simp
    then have "1 \<le> ?c"
      using getRandomInRange_lower [of "rnd 0" "minTransactionsPerWallet (cfg_transactions cfg)"
          "maxTransactionsPerWallet (cfg_transactions cfg)"] rnd [of 0] mn
      by simp
    then show ?thesis using inv by auto
  qed
  have h: "alwaysStartWithPriorToUsdc (patterns (cfg_transactions cfg)) \<Longrightarrow>
      hd (generateLoop rnd ?c 1 ?s) = Some SWAP_PRIOR_TO_USDC"
  proof -
    assume a: "alwaysStartWithPriorToUsdc (patterns (cfg_transactions cfg))"
    then have "take 1 (generateLoop rnd ?c 1 ?s) = [Some SWAP_PRIOR_TO_USDC]"
      using inv by simp
    then show ?thesis using ne by (cases "generateLoop rnd ?c 1 ?s") auto
  qed
  show ?thesis unfolding g using inv ne h by blast
qed

text \<open>
  Witness for C10: the shipped configuration (5 to 6 transactions, starting with PRIOR to
  USDC) with every draw equal to \<open>1/2\<close>.
\<close>

theorem generateTransactionSequence_alternates_witness:
  "generateTransactionSequence shippedConfig (\<lambda>k. 1 / 2) \<noteq> []
   \<and> set (generateTransactionSequence shippedConfig (\<lambda>k. 1 / 2))
       \<subseteq> {Some SWAP_PRIOR_TO_USDC, Some SWAP_USDC_TO_PRIOR}
   \<and> distinct_adj (generateTransactionSequence shippedConfig (\<lambda>k. 1 / 2))
   \<and> hd (generateTransactionSequence shippedConfig (\<lambda>k. 1 / 2)) = Some SWAP_PRIOR_TO_USDC"
proof -
  have a: "alwaysStartWithPriorToUsdc (patterns (cfg_transactions shippedConfig))"
    and m: "1 \<le> minTransactionsPerWallet (cfg_transactions shippedConfig)"
    by (simp_all add: shippedConfig_def)
  have r: "\<And>k :: nat. (0 :: rat) \<le> 1 / 2 \<and> (1 :: rat) / 2 < 1" by simp
  show ?thesis
    using generateTransactionSequence_alternates [of "\<lambda>k. 1 / 2" shippedConfig, OF r m] a
    by simp
qed

text \<open>
  Counterexample to C10 as stated: with \<open>minTransactionsPerWallet = 1\<close>,
  \<open>maxTransactionsPerWallet = -1\<close>, no forced first element and the draw \<open>1/2\<close>, the count
  is \<open>\<lfloor>1/2 \<cdot> (-1)\<rfloor> + 1 = 0\<close> and the sequence is empty.
\<close>

theorem generateTransactionSequence_empty:
  "generateTransactionSequence
     (shippedConfig\<lparr>cfg_transactions :=
        \<lparr>minTransactionsPerWallet = 1, maxTransactionsPerWallet = - 1,
         patterns = \<lparr>alwaysStartWithPriorToUsdc = False\<rparr>\<rparr>\<rparr>) (\<lambda>k. 1 / 2) = []"
  by (simp add: generateTransactionSequence_def getRandomInRange_def generateLoop.simps
      shippedConfig_def)

end
